theory Spec2Isabelle
  imports Complex_Main "HOL-Library.Multiset" "HOL-Library.Sublist"
    "HOL-Library.List_Lexorder" "HOL-Library.Char_ord"
begin

section \<open>Data model\<close>

text \<open>
  The source file \<^verbatim>\<open>src/islands/App.tsx\<close> holds two listings of the same module. Both
  declare the interface \<^verbatim>\<open>Episode\<close> with four string fields. The field \<^verbatim>\<open>id\<close> is named
  \<open>id_ep\<close> here, since \<open>id\<close> is the identity function of HOL.

  Strings are lists of characters. Array lengths and mention counts are natural numbers.
  The result of a JavaScript division is a \<open>jsnum\<close>: \<open>NaN\<close>, \<open>Infinity\<close>, or a finite
  value, which is kept as the exact quotient (the rounding of IEEE doubles is left out).
\<close>

record Episode =
  id_ep :: string
  title :: string
  published :: string
  band :: string

datatype jsnum = NaN | Infinity | Num rat

datatype error = TypeError

text \<open>
  What a property of a counting object holds. The accumulators of \<^verbatim>\<open>bandCounts\<close> and
  \<^verbatim>\<open>bandMentions\<close> are declared \<^verbatim>\<open>Record<string, number>\<close>, but the expression that is
  stored, \<^verbatim>\<open>(acc[episode.band] || 0) + 1\<close>, is a string when \<^verbatim>\<open>acc[episode.band]\<close> is not
  a number.
\<close>

datatype count = Number nat | Str string

datatype sortMode = Band | Count | Date

section \<open>The JavaScript operations the module uses\<close>

subsection \<open>Numbers\<close>

text \<open>\<^verbatim>\<open>a / b\<close> on two array lengths: \<^verbatim>\<open>0 / 0\<close> is NaN, \<^verbatim>\<open>n / 0\<close> is Infinity for \<open>n > 0\<close>.\<close>

definition js_div :: "nat \<Rightarrow> nat \<Rightarrow> jsnum" where
  "js_div a b =
     (if b = 0 then (if a = 0 then NaN else Infinity)
      else Num (of_nat a / of_nat b))"

text \<open>\<^verbatim>\<open>x * 100\<close>.\<close>

fun js_times100 :: "jsnum \<Rightarrow> jsnum" where
  "js_times100 NaN = NaN"
| "js_times100 Infinity = Infinity"
| "js_times100 (Num r) = Num (r * 100)"

subsection \<open>Strings\<close>

text \<open>\<^verbatim>\<open>s.includes(t)\<close>: \<open>t\<close> occurs in \<open>s\<close> as a contiguous piece.\<close>

fun includes_str :: "string \<Rightarrow> string \<Rightarrow> bool" where
  "includes_str [] t = (t = [])"
| "includes_str (c # s) t = (prefix t (c # s) \<or> includes_str s t)"

text \<open>
  \<^verbatim>\<open>s.toLowerCase()\<close>, on the letters A to Z; every other character is left as it is.
  \<^verbatim>\<open>String.prototype.toLowerCase\<close> also maps the letters outside of A to Z; they are not
  modelled. The proofs below use of the search only that it is a test on the band of an
  episode; none depends on which characters the case mapping changes.
\<close>

definition lowerChar :: "char \<Rightarrow> char" where
  "lowerChar c =
     (let n = (of_char c :: nat)
      in if 65 \<le> n \<and> n \<le> 90 then char_of (n + 32) else c)"

definition toLowerCase :: "string \<Rightarrow> string" where
  "toLowerCase s = map lowerChar s"

subsection \<open>Objects used as dictionaries\<close>

text \<open>
  The accumulators start as \<^verbatim>\<open>{}\<close>, an object whose prototype is \<^verbatim>\<open>Object.prototype\<close>. An
  object is modelled by the list of its own properties in the order of their creation;
  the members it inherits are the same for every such object: the accessor \<^verbatim>\<open>__proto__\<close>,
  whose getter gives the prototype, and the native functions of \<^verbatim>\<open>Object.prototype\<close>. The
  member \<^verbatim>\<open>constructor\<close> is the function \<^verbatim>\<open>Object\<close>; every other function has the name of
  its key.
\<close>

type_synonym 'v jsobject = "(string \<times> 'v) list"

datatype member = NativeFunction string | ObjectPrototype

definition objectPrototypeNames :: "string list" where
  "objectPrototypeNames =
     [''__proto__'', ''constructor'', ''__defineGetter__'', ''__defineSetter__'',
      ''hasOwnProperty'', ''__lookupGetter__'', ''__lookupSetter__'', ''isPrototypeOf'',
      ''propertyIsEnumerable'', ''toString'', ''valueOf'', ''toLocaleString'']"

definition inherited :: "string \<Rightarrow> member option" where
  "inherited k =
     (if k = ''__proto__'' then Some ObjectPrototype
      else if k = ''constructor'' then Some (NativeFunction ''Object'')
      else if k \<in> set objectPrototypeNames then Some (NativeFunction k)
      else None)"

text \<open>
  \<^verbatim>\<open>obj[k]\<close>: the own property when there is one, else the inherited member, else
  \<^verbatim>\<open>undefined\<close>.
\<close>

datatype 'v lookup = Own 'v | Inherited member | Undefined

definition getProp :: "'v jsobject \<Rightarrow> string \<Rightarrow> 'v lookup" where
  "getProp obj k =
     (case map_of obj k of
        Some v \<Rightarrow> Own v
      | None \<Rightarrow> (case inherited k of Some m \<Rightarrow> Inherited m | None \<Rightarrow> Undefined))"

text \<open>
  \<^verbatim>\<open>obj[k] = v\<close>. An existing own property keeps its place, a new one goes last; an
  inherited native function is shadowed by a new own property. Under the key
  \<^verbatim>\<open>__proto__\<close> the assignment calls the inherited setter instead: it ignores a number or
  a string, and the only object the module assigns there is \<^verbatim>\<open>Object.prototype\<close> itself,
  which is the prototype already. So no own property is made and the object stays as it
  is.
\<close>

fun setOwn :: "'v jsobject \<Rightarrow> string \<Rightarrow> 'v \<Rightarrow> 'v jsobject" where
  "setOwn [] k v = [(k, v)]"
| "setOwn (p # ps) k v = (if fst p = k then (k, v) # ps else p # setOwn ps k v)"

definition setProp :: "'v jsobject \<Rightarrow> string \<Rightarrow> 'v \<Rightarrow> 'v jsobject" where
  "setProp obj k v = (if k = ''__proto__'' then obj else setOwn obj k v)"

text \<open>
  The string that \<^verbatim>\<open>+\<close> makes of an inherited member: the source text of a native
  function, and \<^verbatim>\<open>[object Object]\<close> for \<^verbatim>\<open>Object.prototype\<close>.
\<close>

fun memberToString :: "member \<Rightarrow> string" where
  "memberToString (NativeFunction name) = ''function '' @ name @ ''() { [native code] }''"
| "memberToString ObjectPrototype = ''[object Object]''"

text \<open>
  \<^verbatim>\<open>(acc[k] || 0) + 1\<close> for the value \<^verbatim>\<open>acc[k]\<close> that was looked up. A number that is not 0,
  a string that is not empty, a function and an object are truthy. \<^verbatim>\<open>+\<close> adds two
  numbers and concatenates when one operand is a string, a function or an object.
\<close>

fun orZeroPlusOne :: "count lookup \<Rightarrow> count" where
  "orZeroPlusOne (Own (Number n)) = Number (n + 1)"
| "orZeroPlusOne (Own (Str s)) = (if s = [] then Number 1 else Str (s @ ''1''))"
| "orZeroPlusOne (Inherited m) = Str (memberToString m @ ''1'')"
| "orZeroPlusOne Undefined = Number 1"

text \<open>
  \<^verbatim>\<open>x - y\<close> on two stored counts, with \<open>None\<close> for NaN. The strings that the module stores
  start with the source text of a native function, which is not a numeral, so a
  difference with a string is NaN. \<^verbatim>\<open>sort\<close> takes a NaN from its comparator as \<open>+0\<close>.
\<close>

fun subtractCounts :: "count \<Rightarrow> count \<Rightarrow> int option" where
  "subtractCounts (Number m) (Number n) = Some (int m - int n)"
| "subtractCounts x y = None"

fun nanToZero :: "int option \<Rightarrow> int" where
  "nanToZero None = 0"
| "nanToZero (Some d) = d"

text \<open>
  The order in which \<^verbatim>\<open>Object.entries\<close> and \<^verbatim>\<open>Object.keys\<close> list the properties: first the
  keys that are array indices (the decimal form, without leading zeros, of an integer
  below 4294967295, that is \<open>2\<^sup>3\<^sup>2 - 1\<close>) in ascending numeric order, then all other keys in the order of
  their creation.
\<close>

definition isDigit :: "char \<Rightarrow> bool" where
  "isDigit c = (let n = (of_char c :: nat) in 48 \<le> n \<and> n \<le> 57)"

definition toIndex :: "string \<Rightarrow> nat" where
  "toIndex s = foldl (\<lambda>n c. 10 * n + ((of_char c :: nat) - 48)) 0 s"

definition isArrayIndex :: "string \<Rightarrow> bool" where
  "isArrayIndex s =
     (s \<noteq> [] \<and> list_all isDigit s \<and> (hd s \<noteq> CHR ''0'' \<or> s = ''0'')
      \<and> toIndex s < 4294967295)"

definition Object_entries :: "'v jsobject \<Rightarrow> (string \<times> 'v) list" where
  "Object_entries obj =
     sort_key (\<lambda>p. toIndex (fst p)) (filter (\<lambda>p. isArrayIndex (fst p)) obj)
     @ filter (\<lambda>p. \<not> isArrayIndex (fst p)) obj"

definition Object_keys :: "'v jsobject \<Rightarrow> string list" where
  "Object_keys obj = map fst (Object_entries obj)"

subsection \<open>Arrays\<close>

text \<open>\<^verbatim>\<open>xs[i]\<close>, with \<open>None\<close> for \<^verbatim>\<open>undefined\<close> when \<open>i\<close> is not an index of \<open>xs\<close>.\<close>

definition at_index :: "'a list \<Rightarrow> int \<Rightarrow> 'a option" where
  "at_index xs i = (if 0 \<le> i \<and> i < int (length xs) then Some (xs ! nat i) else None)"

text \<open>\<^verbatim>\<open>xs.findIndex(p)\<close>: the first index whose element satisfies \<open>p\<close>, or \<open>-1\<close>.\<close>

fun findIndex :: "('a \<Rightarrow> bool) \<Rightarrow> 'a list \<Rightarrow> int" where
  "findIndex p [] = -1"
| "findIndex p (x # xs) =
     (if p x then 0 else (let r = findIndex p xs in if r < 0 then -1 else r + 1))"

text \<open>
  \<^verbatim>\<open>xs.sort(cmp)\<close>: the sort is stable, and an element goes before another when the
  comparator's result is negative. Insertion from the right gives that order for every
  comparator that is consistent on the elements of the array. For a comparator that is
  not, the standard leaves the order to the implementation; no statement below rests on
  the order of such a result.
\<close>

fun insert_cmp :: "('a \<Rightarrow> 'a \<Rightarrow> int) \<Rightarrow> 'a \<Rightarrow> 'a list \<Rightarrow> 'a list" where
  "insert_cmp cmp x [] = [x]"
| "insert_cmp cmp x (y # ys) =
     (if cmp x y \<le> 0 then x # y # ys else y # insert_cmp cmp x ys)"

definition sort_cmp :: "('a \<Rightarrow> 'a \<Rightarrow> int) \<Rightarrow> 'a list \<Rightarrow> 'a list" where
  "sort_cmp cmp xs = foldr (insert_cmp cmp) xs []"

section \<open>The module\<close>

subsection \<open>Known bands\<close>

text \<open>
  The test of \<^verbatim>\<open>bandCounts\<close> and of the grouping effect for an episode that is skipped or
  goes to the bucket \<^verbatim>\<open>Unknown\<close>:
  \<^verbatim>\<open>!episode.band || episode.band === "" || episode.band.includes("<") || episode.band.includes(">")\<close>,
  and the test of \<^verbatim>\<open>StatsPage\<close> for an episode that counts:
  \<^verbatim>\<open>episode.band && !episode.band.includes("<") && !episode.band.includes(">")\<close>.
  An empty string is falsy.
\<close>

definition unknownBand :: "Episode \<Rightarrow> bool" where
  "unknownBand e =
     (band e = [] \<or> band e = '''' \<or> includes_str (band e) ''<'' \<or> includes_str (band e) ''>'')"

definition knownBand :: "Episode \<Rightarrow> bool" where
  "knownBand e = (band e \<noteq> [] \<and> \<not> includes_str (band e) ''<'' \<and> \<not> includes_str (band e) ''>'')"

subsection \<open>App: filtering\<close>

definition matchesSearch :: "string \<Rightarrow> Episode \<Rightarrow> bool" where
  "matchesSearch searchTerm e = includes_str (toLowerCase (band e)) (toLowerCase searchTerm)"

text \<open>The first listing: \<^verbatim>\<open>episodes.filter(episode => ...includes(...))\<close>.\<close>

definition filteredEpisodes1 :: "Episode list \<Rightarrow> string \<Rightarrow> Episode list" where
  "filteredEpisodes1 episodes searchTerm = filter (matchesSearch searchTerm) episodes"

text \<open>
  The second listing filters once more, keeping an episode when
  \<^verbatim>\<open>episodes.findIndex(e => e.id === episode.id) === episodes.indexOf(episode)\<close>.
  \<^verbatim>\<open>indexOf\<close> compares object references, and the elements of \<^verbatim>\<open>episodes\<close> are pairwise
  different objects (they are the elements of a parsed JSON array), so the index that
  \<^verbatim>\<open>indexOf\<close> finds for an element is the element's own position. The model carries that
  position along with each element.
\<close>

definition filteredEpisodes :: "Episode list \<Rightarrow> string \<Rightarrow> Episode list" where
  "filteredEpisodes episodes searchTerm =
     map snd
       (filter (\<lambda>(i, episode). findIndex (\<lambda>e. id_ep e = id_ep episode) episodes = int i)
         (filter (\<lambda>(i, episode). matchesSearch searchTerm episode)
           (enumerate 0 episodes)))"

subsection \<open>App: counting and sorting\<close>

definition bandCounts :: "Episode list \<Rightarrow> count jsobject" where
  "bandCounts episodes =
     foldl (\<lambda>acc episode.
              if unknownBand episode then acc
              else setProp acc (band episode) (orZeroPlusOne (getProp acc (band episode))))
       [] episodes"

definition totalCountableEpisodes :: "Episode list \<Rightarrow> nat" where
  "totalCountableEpisodes episodes =
     length (filter (\<lambda>episode. \<not> (includes_str (band episode) ''<'' \<or> includes_str (band episode) ''>''))
               episodes)"

text \<open>
  The comparator of \<^verbatim>\<open>sortedBands\<close>. \<^verbatim>\<open>localeCompare\<close> is the host's collation; it is a
  parameter of the model.
\<close>

definition bandComparator ::
  "(string \<Rightarrow> string \<Rightarrow> int) \<Rightarrow> sortMode \<Rightarrow> string \<times> count \<Rightarrow> string \<times> count \<Rightarrow> int" where
  "bandComparator localeCompare sortBy a b =
     (if sortBy = Count then nanToZero (subtractCounts (snd b) (snd a))
      else if sortBy = Date then 0
      else localeCompare (fst a) (fst b))"

definition sortedBands ::
  "(string \<Rightarrow> string \<Rightarrow> int) \<Rightarrow> sortMode \<Rightarrow> Episode list \<Rightarrow> (string \<times> count) list" where
  "sortedBands localeCompare sortBy episodes =
     sort_cmp (bandComparator localeCompare sortBy) (Object_entries (bandCounts episodes))"

definition knownBandsPercentage :: "Episode list \<Rightarrow> jsnum" where
  "knownBandsPercentage episodes =
     js_times100 (js_div (length (Object_keys (bandCounts episodes)))
                         (totalCountableEpisodes episodes))"

subsection \<open>App: grouping (second listing)\<close>

text \<open>
  \<^verbatim>\<open>groups[k] = groups[k] || []; groups[k].push(episode)\<close>, with \<open>k\<close> the band or
  \<^verbatim>\<open>"Unknown"\<close>. An array is truthy, also when it is empty, and so is an inherited member:
  then \<^verbatim>\<open>groups[k]\<close> is that member, which has no \<^verbatim>\<open>push\<close>, and the call throws a
  TypeError. The error ends the \<^verbatim>\<open>forEach\<close> and the effect.
\<close>

definition groupKey :: "Episode \<Rightarrow> string" where
  "groupKey episode = (if unknownBand episode then ''Unknown'' else band episode)"

definition pushGroup ::
  "Episode list jsobject \<Rightarrow> Episode \<Rightarrow> error + Episode list jsobject" where
  "pushGroup groups episode =
     (case getProp groups (groupKey episode) of
        Own es \<Rightarrow> Inr (setProp groups (groupKey episode) (es @ [episode]))
      | Inherited m \<Rightarrow> Inl TypeError
      | Undefined \<Rightarrow> Inr (setProp groups (groupKey episode) [episode]))"

fun forEachPush ::
  "Episode list jsobject \<Rightarrow> Episode list \<Rightarrow> error + Episode list jsobject" where
  "forEachPush groups [] = Inr groups"
| "forEachPush groups (episode # rest) =
     (case pushGroup groups episode of
        Inl err \<Rightarrow> Inl err
      | Inr groups' \<Rightarrow> forEachPush groups' rest)"

definition bandGroups :: "Episode list \<Rightarrow> error + Episode list jsobject" where
  "bandGroups filtered = forEachPush [] filtered"

subsection \<open>StatsPage\<close>

definition bandMentions :: "Episode list \<Rightarrow> count jsobject" where
  "bandMentions episodes =
     foldl (\<lambda>acc episode.
              if knownBand episode
              then setProp acc (band episode) (orZeroPlusOne (getProp acc (band episode)))
              else acc)
       [] episodes"

record Stats =
  mostMentionedBand :: "(string \<times> count) option"
  leastMentionedBand :: "(string \<times> count) option"
  newBandPercentage :: jsnum
  lastMentionedBand :: "Episode option"

definition stats :: "Episode list \<Rightarrow> Stats" where
  "stats episodes =
     (let sorted = sort_cmp (\<lambda>a b. nanToZero (subtractCounts (snd b) (snd a)))
                     (Object_entries (bandMentions episodes));
          newBandCount = length (filter (\<lambda>(b, n). n = Number 1) sorted)
      in \<lparr> mostMentionedBand = at_index sorted 0,
           leastMentionedBand = at_index sorted (int (length sorted) - 1),
           newBandPercentage = js_times100 (js_div newBandCount (length sorted)),
           lastMentionedBand = find knownBand episodes \<rparr>)"

text \<open>
  What the page shows. \<^verbatim>\<open>stats.mostMentionedBand[0]\<close> and \<^verbatim>\<open>stats.leastMentionedBand[0]\<close>
  read an element of a value that may be \<^verbatim>\<open>undefined\<close>, which throws a TypeError;
  \<^verbatim>\<open>stats.lastMentionedBand?.band\<close> does not.
\<close>

record StatsView =
  mostShown :: "string \<times> count"
  leastShown :: "string \<times> count"
  newBandShown :: jsnum
  lastShown :: "string option"

definition StatsPage :: "Episode list \<Rightarrow> error + StatsView" where
  "StatsPage episodes =
     (let s = stats episodes
      in case mostMentionedBand s of
           None \<Rightarrow> Inl TypeError
         | Some m \<Rightarrow>
             (case leastMentionedBand s of
                None \<Rightarrow> Inl TypeError
              | Some l \<Rightarrow>
                  Inr \<lparr> mostShown = m, leastShown = l,
                        newBandShown = newBandPercentage s,
                        lastShown = map_option band (lastMentionedBand s) \<rparr>))"

subsection \<open>App: the list of bands on the page (second listing)\<close>

text \<open>
  In the modes \<^verbatim>\<open>band\<close> and \<^verbatim>\<open>count\<close> the page maps over \<^verbatim>\<open>sortedBands\<close> and shows, for
  each band, \<^verbatim>\<open>bandGroups[band].map(...)\<close>, where \<^verbatim>\<open>bandGroups\<close> is the grouping of
  \<^verbatim>\<open>filteredEpisodes\<close>. Calling \<^verbatim>\<open>map\<close> on \<^verbatim>\<open>undefined\<close>, or on an inherited member, which
  has no \<^verbatim>\<open>map\<close>, throws a TypeError. The model also gives the error when the grouping
  itself has thrown.
\<close>

fun renderBands ::
  "Episode list jsobject \<Rightarrow> (string \<times> count) list
     \<Rightarrow> error + (string \<times> count \<times> Episode list) list" where
  "renderBands groups [] = Inr []"
| "renderBands groups ((b, n) # rest) =
     (case getProp groups b of
        Own es \<Rightarrow>
          (case renderBands groups rest of
             Inl err \<Rightarrow> Inl err
           | Inr items \<Rightarrow> Inr ((b, n, es) # items))
      | Inherited m \<Rightarrow> Inl TypeError
      | Undefined \<Rightarrow> Inl TypeError)"

definition bandList ::
  "(string \<Rightarrow> string \<Rightarrow> int) \<Rightarrow> sortMode \<Rightarrow> Episode list \<Rightarrow> string
     \<Rightarrow> error + (string \<times> count \<times> Episode list) list" where
  "bandList localeCompare sortBy episodes searchTerm =
     (case bandGroups (filteredEpisodes episodes searchTerm) of
        Inl err \<Rightarrow> Inl err
      | Inr groups \<Rightarrow> renderBands groups (sortedBands localeCompare sortBy episodes))"

section \<open>Example data\<close>

text \<open>
  An episode with the given id and band, and the three episodes of the example of the
  specification: \<^verbatim>\<open>[{id:1, band:"Wilco"}, {id:2, band:"<unknown>"}, {id:3, band:"Wilco"}]\<close>.
\<close>

definition mkEpisode :: "string \<Rightarrow> string \<Rightarrow> Episode" where
  "mkEpisode i b = \<lparr> id_ep = i, title = [], published = [], band = b \<rparr>"

definition exampleEpisodes :: "Episode list" where
  "exampleEpisodes =
     [mkEpisode ''1'' ''Wilco'', mkEpisode ''2'' ''<unknown>'', mkEpisode ''3'' ''Wilco'']"

text \<open>
  Two collations for \<^verbatim>\<open>localeCompare\<close> in the examples. The first is the lexicographic
  order of the character codes. The second compares the names without regard to case
  and is lexicographic on the lowered names; the collations of the hosts order names
  that differ in more than case in this way, \<^verbatim>\<open>abba\<close> before \<^verbatim>\<open>Wilco\<close>.
\<close>

definition lexCompare :: "string \<Rightarrow> string \<Rightarrow> int" where
  "lexCompare a b = (if a = b then 0 else if a < b then - 1 else 1)"

definition caseBlindCompare :: "string \<Rightarrow> string \<Rightarrow> int" where
  "caseBlindCompare a b = lexCompare (toLowerCase a) (toLowerCase b)"

section \<open>Auxiliary notions for the statements\<close>

text \<open>
  The elements of a list in the order of their first occurrence. The order in which the
  keys of a counting object are created is stated with it.
\<close>

fun firstOccurrences :: "'a list \<Rightarrow> 'a list" where
  "firstOccurrences [] = []"
| "firstOccurrences (x # xs) = x # filter (\<lambda>y. y \<noteq> x) (firstOccurrences xs)"

text \<open>The mention count of a band: the number of episodes with that known band.\<close>

definition mentions :: "Episode list \<Rightarrow> string \<Rightarrow> nat" where
  "mentions episodes b = length (filter (\<lambda>e. knownBand e \<and> band e = b) episodes)"

text \<open>
  No band of the list is the name of a member of \<^verbatim>\<open>Object.prototype\<close>. Such a name has
  neither \<^verbatim>\<open><\<close> nor \<^verbatim>\<open>>\<close> and is not empty, so an episode with it has a known band.
\<close>

definition noPrototypeNames :: "Episode list \<Rightarrow> bool" where
  "noPrototypeNames episodes = (\<forall>e \<in> set episodes. band e \<notin> set objectPrototypeNames)"


section \<open>Properties of the operations\<close>

subsection \<open>Strings and objects\<close>

lemma includes_str_single: "includes_str s [c] \<longleftrightarrow> c \<in> set s"
  by (induction s) auto

lemma includes_str_Nil: "includes_str s []"
  by (cases s) auto

lemma knownBand_iff: "knownBand e \<longleftrightarrow> \<not> unknownBand e"
  by (simp add: knownBand_def unknownBand_def)

lemma knownBand_eq: "knownBand = (\<lambda>e. \<not> unknownBand e)"
  by (rule ext) (rule knownBand_iff)

lemma knownBand_chars:
  "knownBand e \<longleftrightarrow> band e \<noteq> [] \<and> CHR ''<'' \<notin> set (band e) \<and> CHR ''>'' \<notin> set (band e)"
  by (simp add: knownBand_def includes_str_single)

lemma prototypeName_known: "band e \<in> set objectPrototypeNames \<Longrightarrow> knownBand e"
  by (auto simp: knownBand_chars objectPrototypeNames_def)

lemma inherited_None_iff: "inherited k = None \<longleftrightarrow> k \<notin> set objectPrototypeNames"
  by (auto simp: inherited_def objectPrototypeNames_def)

lemma proto_in_names: "''__proto__'' \<in> set objectPrototypeNames"
  by (simp add: objectPrototypeNames_def)

lemma map_of_setOwn:
  "map_of (setOwn obj k v) k' = (if k' = k then Some v else map_of obj k')"
  by (induction obj) auto

lemma keys_setOwn: "fst ` set (setOwn obj k v) = insert k (fst ` set obj)"
  by (induction obj) auto

lemma map_fst_setOwn:
  "map fst (setOwn obj k v) = (if k \<in> fst ` set obj then map fst obj else map fst obj @ [k])"
  by (induction obj) auto

lemma distinct_setOwn:
  "distinct (map fst obj) \<Longrightarrow> distinct (map fst (setOwn obj k v))"
  by (induction obj) (auto simp: keys_setOwn)

lemma getProp_plain:
  "k \<notin> set objectPrototypeNames \<Longrightarrow>
     getProp obj k = (case map_of obj k of Some v \<Rightarrow> Own v | None \<Rightarrow> Undefined)"
  using inherited_None_iff [of k] by (simp add: getProp_def split: option.splits)


lemma mset_Object_entries: "mset (Object_entries obj) = mset obj"
  by (simp add: Object_entries_def)

lemma set_Object_entries: "set (Object_entries obj) = set obj"
  using mset_Object_entries [of obj] by (metis set_mset_mset)

lemma length_Object_entries: "length (Object_entries obj) = length obj"
  using mset_Object_entries [of obj] by (metis size_mset)



lemma Object_keys_length: "length (Object_keys obj) = length obj"
  by (simp add: Object_keys_def length_Object_entries)


lemma map_insort_key:
  "map f (insort_key (\<lambda>p. g (f p)) x xs) = insort_key g (f x) (map f xs)"
  by (induction xs) auto

lemma map_sort_key_comp:
  "map f (sort_key (\<lambda>p. g (f p)) xs) = sort_key g (map f xs)"
  by (induction xs) (auto simp: map_insort_key)

lemma Object_keys_order:
  "Object_keys obj
     = sort_key toIndex (filter isArrayIndex (map fst obj))
       @ filter (\<lambda>k. \<not> isArrayIndex k) (map fst obj)"
  by (simp add: Object_keys_def Object_entries_def map_sort_key_comp filter_map comp_def)

lemma set_firstOccurrences: "set (firstOccurrences xs) = set xs"
  by (induction xs) auto

lemma distinct_firstOccurrences: "distinct (firstOccurrences xs)"
  by (induction xs) (auto simp: set_firstOccurrences)

lemma length_firstOccurrences: "length (firstOccurrences xs) = card (set xs)"
  using distinct_card [OF distinct_firstOccurrences, of xs]
  by (simp add: set_firstOccurrences)

subsection \<open>Counting\<close>

lemma count_step:
  "(if unknownBand e then acc else setProp acc (band e) v)
     = (if unknownBand e \<or> band e = ''__proto__'' then acc else setOwn acc (band e) v)"
  by (simp add: setProp_def)

lemma bandCounts_setOwn:
  "bandCounts eps =
     foldl (\<lambda>acc e. if unknownBand e \<or> band e = ''__proto__'' then acc
                     else setOwn acc (band e) (orZeroPlusOne (getProp acc (band e))))
       [] eps"
  unfolding bandCounts_def count_step ..

lemma bandMentions_eq: "bandMentions eps = bandCounts eps"
proof -
  have sw: "(if \<not> c then a else b) = (if c then b else a)" for c :: bool and a b :: "count jsobject"
    by simp
  show ?thesis
    unfolding bandMentions_def bandCounts_def knownBand_eq sw ..
qed

lemma count_fold_distinct:
  "distinct (map fst acc) \<Longrightarrow>
   distinct (map fst (foldl (\<lambda>acc e. if Q e then acc else setOwn acc (band e) (V acc e)) acc eps))"
  by (induction eps arbitrary: acc) (auto simp: distinct_setOwn)

lemma count_fold_keys:
  "map fst (foldl (\<lambda>acc e. if Q e then acc else setOwn acc (band e) (V acc e)) acc eps)
   = map fst acc @ filter (\<lambda>k. k \<notin> fst ` set acc)
                     (firstOccurrences (map band (filter (\<lambda>e. \<not> Q e) eps)))"
proof (induction eps arbitrary: acc)
  case Nil
  then show ?case by simp
next
  case (Cons e eps)
  show ?case
  proof (cases "Q e")
    case True
    then show ?thesis using Cons [of acc] by simp
  next
    case False
    let ?acc' = "setOwn acc (band e) (V acc e)"
    show ?thesis
    proof (cases "band e \<in> fst ` set acc")
      case True
      have "filter (\<lambda>k. k \<notin> fst ` set acc) (filter (\<lambda>y. y \<noteq> band e) xs)
              = filter (\<lambda>k. k \<notin> fst ` set acc) xs" for xs
        using True by (induction xs) auto
      then show ?thesis using False True Cons [of ?acc']
        by (simp add: map_fst_setOwn keys_setOwn insert_absorb)
    next
      case nin: False
      have "filter (\<lambda>k. k \<noteq> band e \<and> k \<notin> fst ` set acc) xs
              = filter (\<lambda>k. k \<notin> fst ` set acc) (filter (\<lambda>y. y \<noteq> band e) xs)" for xs
        by (induction xs) auto
      then show ?thesis using False nin Cons [of ?acc']
        by (simp add: map_fst_setOwn keys_setOwn)
    qed
  qed
qed

lemma count_fold_value:
  assumes k: "k \<notin> set objectPrototypeNames"
    and a: "map_of acc k = None \<or> (\<exists>c. map_of acc k = Some (Number c))"
  shows "map_of (foldl (\<lambda>acc e. if Q e then acc
                else setOwn acc (band e) (orZeroPlusOne (getProp acc (band e)))) acc eps) k
   = (if filter (\<lambda>e. \<not> Q e \<and> band e = k) eps = [] then map_of acc k
      else Some (Number ((case map_of acc k of Some (Number c) \<Rightarrow> c | _ \<Rightarrow> 0)
                 + length (filter (\<lambda>e. \<not> Q e \<and> band e = k) eps))))"
  using a
proof (induction eps arbitrary: acc)
  case Nil
  then show ?case by simp
next
  case (Cons e eps)
  let ?acc' = "setOwn acc (band e) (orZeroPlusOne (getProp acc (band e)))"
  show ?case
  proof (cases "Q e")
    case True
    then show ?thesis using Cons.IH [OF Cons.prems] by simp
  next
    case False
    show ?thesis
    proof (cases "band e = k")
      case other: False
      then have m: "map_of ?acc' k = map_of acc k" by (simp add: map_of_setOwn)
      have "map_of ?acc' k = None \<or> (\<exists>c. map_of ?acc' k = Some (Number c))"
        using Cons.prems unfolding m .
      from Cons.IH [OF this] show ?thesis using False other unfolding m by simp
    next
      case same: True
      from Cons.prems show ?thesis
      proof
        assume n: "map_of acc k = None"
        then have m: "map_of ?acc' k = Some (Number 1)"
          using same k by (simp add: map_of_setOwn getProp_plain)
        then have "map_of ?acc' k = None \<or> (\<exists>c. map_of ?acc' k = Some (Number c))" by simp
        from Cons.IH [OF this] show ?thesis using False same n unfolding m by simp
      next
        assume "\<exists>c. map_of acc k = Some (Number c)"
        then obtain c where c: "map_of acc k = Some (Number c)" ..
        then have m: "map_of ?acc' k = Some (Number (c + 1))"
          using same k by (simp add: map_of_setOwn getProp_plain)
        then have "map_of ?acc' k = None \<or> (\<exists>c. map_of ?acc' k = Some (Number c))" by simp
        from Cons.IH [OF this] show ?thesis using False same c unfolding m by simp
      qed
    qed
  qed
qed

lemma distinct_bandCounts: "distinct (map fst (bandCounts eps))"
  unfolding bandCounts_setOwn by (rule count_fold_distinct) simp

lemma keys_bandCounts:
  "map fst (bandCounts eps)
     = firstOccurrences (filter (\<lambda>b. b \<noteq> ''__proto__'') (map band (filter knownBand eps)))"
proof -
  have "map band (filter (\<lambda>e. \<not> (unknownBand e \<or> band e = ''__proto__'')) eps)
          = filter (\<lambda>b. b \<noteq> ''__proto__'') (map band (filter knownBand eps))"
    by (induction eps) (auto simp: knownBand_iff)
  then show ?thesis unfolding bandCounts_setOwn by (simp add: count_fold_keys)
qed

lemma key_set_bandCounts:
  "fst ` set (bandCounts eps) = set (map band (filter knownBand eps)) - {''__proto__''}"
proof -
  have "fst ` set (bandCounts eps) = set (map fst (bandCounts eps))" by simp
  also have "\<dots> = set (filter (\<lambda>b. b \<noteq> ''__proto__'') (map band (filter knownBand eps)))"
    unfolding keys_bandCounts by (rule set_firstOccurrences)
  also have "\<dots> = set (map band (filter knownBand eps)) - {''__proto__''}" by auto
  finally show ?thesis .
qed

lemma map_of_bandCounts:
  assumes "k \<notin> set objectPrototypeNames"
  shows "map_of (bandCounts eps) k
     = (if mentions eps k = 0 then None else Some (Number (mentions eps k)))"
proof -
  have ne: "k \<noteq> ''__proto__''" using assms proto_in_names by auto
  have f: "filter (\<lambda>e. \<not> (unknownBand e \<or> band e = ''__proto__'') \<and> band e = k) eps
             = filter (\<lambda>e. knownBand e \<and> band e = k) eps"
    using ne by (intro filter_cong) (auto simp: knownBand_iff)
  show ?thesis
    unfolding bandCounts_setOwn
    using count_fold_value [OF assms, of "[]" "\<lambda>e. unknownBand e \<or> band e = ''__proto__''" eps]
    unfolding f by (simp add: mentions_def)
qed

lemma mem_bandCounts:
  assumes "k \<notin> set objectPrototypeNames"
  shows "(k, c) \<in> set (bandCounts eps) \<longleftrightarrow> c = Number (mentions eps k) \<and> 0 < mentions eps k"
proof -
  have "(k, c) \<in> set (bandCounts eps) \<longleftrightarrow> map_of (bandCounts eps) k = Some c"
    using distinct_bandCounts [of eps] by simp
  then show ?thesis by (auto simp: map_of_bandCounts [OF assms])
qed


lemma length_firstOccurrences_le: "length (firstOccurrences xs) \<le> length xs"
  unfolding length_firstOccurrences by (rule card_length)

lemma length_bandCounts_le: "length (bandCounts eps) \<le> length (filter knownBand eps)"
proof -
  have "length (bandCounts eps) = length (map fst (bandCounts eps))" by simp
  also have "\<dots> \<le> length (filter (\<lambda>b. b \<noteq> ''__proto__'') (map band (filter knownBand eps)))"
    unfolding keys_bandCounts by (rule length_firstOccurrences_le)
  also have "\<dots> \<le> length (map band (filter knownBand eps))" by (rule length_filter_le)
  finally show ?thesis by simp
qed


subsection \<open>The strings that are stored as counts\<close>

text \<open>
  Every string in the counting object starts with the source text of a native function,
  so it is not a numeral, as the difference of two counts takes it.
\<close>

lemma set_setOwn_subset: "set (setOwn obj k v) \<subseteq> insert (k, v) (set obj)"
  by (induction obj) auto

lemma orZeroPlusOne_string:
  assumes k: "k \<noteq> ''__proto__''"
    and inv: "\<forall>(k, v) \<in> set acc. \<forall>s. v = Str s \<longrightarrow> prefix ''function '' s"
    and v: "orZeroPlusOne (getProp acc k) = Str s"
  shows "prefix ''function '' s"
proof (cases "map_of acc k")
  case None
  show ?thesis
  proof (cases "inherited k")
    case n: None
    then show ?thesis using None v by (simp add: getProp_def)
  next
    case (Some m)
    then obtain name where "m = NativeFunction name"
      using k by (auto simp: inherited_def split: if_splits)
    then show ?thesis using None Some v by (auto simp: getProp_def)
  qed
next
  case (Some c)
  then have mem: "(k, c) \<in> set acc" by (rule map_of_SomeD)
  show ?thesis
  proof (cases c)
    case (Number n)
    then show ?thesis using Some v by (simp add: getProp_def)
  next
    case (Str t)
    then have "prefix ''function '' t" using inv mem by blast
    then have "prefix ''function '' (t @ ''1'')" by (rule prefix_prefix)
    then show ?thesis using Some Str v by (auto simp: getProp_def split: if_splits)
  qed
qed

lemma count_fold_strings:
  assumes "\<forall>(k, v) \<in> set acc. \<forall>s. v = Str s \<longrightarrow> prefix ''function '' s"
  shows "\<forall>(k, v) \<in> set (foldl (\<lambda>acc e. if unknownBand e \<or> band e = ''__proto__'' then acc
                     else setOwn acc (band e) (orZeroPlusOne (getProp acc (band e)))) acc eps).
           \<forall>s. v = Str s \<longrightarrow> prefix ''function '' s"
  using assms
proof (induction eps arbitrary: acc)
  case Nil
  then show ?case by simp
next
  case (Cons e eps)
  show ?case
  proof (cases "unknownBand e \<or> band e = ''__proto__''")
    case True
    then show ?thesis using Cons.IH [OF Cons.prems] by simp
  next
    case False
    let ?acc' = "setOwn acc (band e) (orZeroPlusOne (getProp acc (band e)))"
    have "\<forall>(k, v) \<in> set ?acc'. \<forall>s. v = Str s \<longrightarrow> prefix ''function '' s"
    proof (intro ballI, clarify)
      fix k s assume m: "(k, Str s) \<in> set ?acc'"
      then have "(k, Str s) = (band e, orZeroPlusOne (getProp acc (band e))) \<or> (k, Str s) \<in> set acc"
        using set_setOwn_subset [of acc "band e" "orZeroPlusOne (getProp acc (band e))"] by blast
      then show "prefix ''function '' s"
      proof
        assume "(k, Str s) = (band e, orZeroPlusOne (getProp acc (band e)))"
        then have "orZeroPlusOne (getProp acc (band e)) = Str s" by simp
        with False Cons.prems show ?thesis
          by (intro orZeroPlusOne_string [of "band e" acc s]) simp_all
      next
        assume "(k, Str s) \<in> set acc"
        then show ?thesis using Cons.prems by blast
      qed
    qed
    from Cons.IH [OF this] show ?thesis using False by simp
  qed
qed

lemma bandCounts_strings:
  "(k, Str s) \<in> set (bandCounts eps) \<Longrightarrow> prefix ''function '' s"
  using count_fold_strings [of "[]" eps] unfolding bandCounts_setOwn by auto

subsection \<open>The band counts without names of the prototype\<close>



lemma noPrototypeNames_key:
  "noPrototypeNames eps \<Longrightarrow> k \<in> fst ` set (bandCounts eps) \<Longrightarrow> k \<notin> set objectPrototypeNames"
  unfolding key_set_bandCounts noPrototypeNames_def by auto

lemma noPrototypeNames_keys:
  "noPrototypeNames eps \<Longrightarrow>
     fst ` set (bandCounts eps) = set (map band (filter knownBand eps))"
  unfolding key_set_bandCounts noPrototypeNames_def using proto_in_names by auto

lemma noPrototypeNames_entry:
  assumes "noPrototypeNames eps" and "(k, c) \<in> set (bandCounts eps)"
  shows "c = Number (mentions eps k) \<and> 0 < mentions eps k"
proof -
  have "k \<in> fst ` set (bandCounts eps)" using assms(2) by force
  then have "k \<notin> set objectPrototypeNames" using assms(1) by (rule noPrototypeNames_key [rotated])
  then show ?thesis using assms(2) by (simp add: mem_bandCounts)
qed


section \<open>The claims and the lemmas they rest on\<close>

subsection \<open>C10: the band counts\<close>



lemma wilco_plain: "''Wilco'' \<notin> set objectPrototypeNames"
  by (simp add: objectPrototypeNames_def)




subsection \<open>Counts and the number of episodes\<close>

lemma known_le_countable: "length (filter knownBand eps) \<le> totalCountableEpisodes eps"
  unfolding totalCountableEpisodes_def
  by (induction eps) (auto simp: knownBand_def)

lemma knownBandsPercentage_eq:
  "knownBandsPercentage eps =
     (if totalCountableEpisodes eps = 0 then NaN
      else Num (of_nat (length (bandCounts eps)) / of_nat (totalCountableEpisodes eps) * 100))"
proof (cases "totalCountableEpisodes eps = 0")
  case True
  then have "length (filter knownBand eps) = 0" using known_le_countable [of eps] by simp
  then have "length (bandCounts eps) = 0" using length_bandCounts_le [of eps] by simp
  then show ?thesis using True
    by (simp add: knownBandsPercentage_def Object_keys_length js_div_def)
next
  case False
  then show ?thesis
    by (simp add: knownBandsPercentage_def Object_keys_length js_div_def)
qed


subsection \<open>Sorting with a comparator\<close>

lemma mset_insert_cmp: "mset (insert_cmp cmp x xs) = add_mset x (mset xs)"
  by (induction xs) auto

lemma mset_sort_cmp: "mset (sort_cmp cmp xs) = mset xs"
  unfolding sort_cmp_def by (induction xs) (auto simp: mset_insert_cmp)

lemma length_sort_cmp: "length (sort_cmp cmp xs) = length xs"
  using mset_sort_cmp [of cmp xs] by (metis size_mset)

lemma set_sort_cmp: "set (sort_cmp cmp xs) = set xs"
  using mset_sort_cmp [of cmp xs] by (metis set_mset_mset)

lemma set_insert_cmp: "set (insert_cmp cmp x xs) = insert x (set xs)"
  by (induction xs) auto

subsection \<open>The percentages\<close>


subsection \<open>C1: the range of the percentages\<close>





subsection \<open>The denominator of the percentage of known bands\<close>



subsection \<open>C3: the formula of the percentage of known bands\<close>




subsection \<open>Filtering\<close>

lemma findIndex_ge: "- 1 \<le> findIndex p xs"
  by (induction xs) (auto simp: Let_def)

lemma findIndex_iff:
  "findIndex p xs = int i \<longleftrightarrow> i < length xs \<and> p (xs ! i) \<and> (\<forall>j<i. \<not> p (xs ! j))"
proof (induction xs arbitrary: i)
  case Nil
  then show ?case by simp
next
  case (Cons x xs)
  show ?case
  proof (cases "p x")
    case True
    then show ?thesis by (cases i) auto
  next
    case False
    show ?thesis
    proof (cases i)
      case 0
      then show ?thesis using False findIndex_ge [of p xs] by (auto simp: Let_def)
    next
      case (Suc k)
      have "findIndex p (x # xs) = int (Suc k) \<longleftrightarrow> findIndex p xs = int k"
        using False findIndex_ge [of p xs] by (auto simp: Let_def)
      also have "\<dots> \<longleftrightarrow> k < length xs \<and> p (xs ! k) \<and> (\<forall>j<k. \<not> p (xs ! j))"
        by (rule Cons.IH)
      also have "\<dots> \<longleftrightarrow> Suc k < length (x # xs) \<and> p ((x # xs) ! Suc k)
                        \<and> (\<forall>j<Suc k. \<not> p ((x # xs) ! j))"
        using False by (auto simp: less_Suc_eq_0_disj)
      finally show ?thesis using Suc by simp
    qed
  qed
qed

lemma enumerate_map_nth: "enumerate 0 xs = map (\<lambda>i. (i, xs ! i)) [0..<length xs]"
  by (rule nth_equalityI) (simp_all add: nth_enumerate_eq)

lemma filteredEpisodes_positions:
  "filteredEpisodes eps t
     = map (\<lambda>i. eps ! i)
         (filter (\<lambda>i. matchesSearch t (eps ! i) \<and> (\<forall>j<i. id_ep (eps ! j) \<noteq> id_ep (eps ! i)))
            [0..<length eps])"
proof -
  have c: "filter (\<lambda>i. findIndex (\<lambda>e. id_ep e = id_ep (eps ! i)) eps = int i)
             (filter (\<lambda>i. matchesSearch t (eps ! i)) [0..<length eps])
           = filter (\<lambda>i. matchesSearch t (eps ! i) \<and> (\<forall>j<i. id_ep (eps ! j) \<noteq> id_ep (eps ! i)))
               [0..<length eps]"
    unfolding filter_filter
    by (rule filter_cong) (auto simp: findIndex_iff)
  have "filteredEpisodes eps t
      = map snd (map (\<lambda>i. (i, eps ! i))
          (filter (\<lambda>i. findIndex (\<lambda>e. id_ep e = id_ep (eps ! i)) eps = int i)
             (filter (\<lambda>i. matchesSearch t (eps ! i)) [0..<length eps])))"
    by (simp add: filteredEpisodes_def enumerate_map_nth filter_map comp_def)
  then show ?thesis unfolding c by (simp add: comp_def)
qed

lemma filteredEpisodes_distinct_ids: "distinct (map id_ep (filteredEpisodes eps t))"
proof -
  let ?K = "\<lambda>i. matchesSearch t (eps ! i) \<and> (\<forall>j<i. id_ep (eps ! j) \<noteq> id_ep (eps ! i))"
  have inj: "inj_on (\<lambda>i. id_ep (eps ! i)) (set (filter ?K [0..<length eps]))"
  proof (rule inj_onI)
    fix a b
    assume a: "a \<in> set (filter ?K [0..<length eps])"
      and b: "b \<in> set (filter ?K [0..<length eps])"
      and eq: "id_ep (eps ! a) = id_ep (eps ! b)"
    show "a = b"
    proof (rule ccontr)
      assume "a \<noteq> b"
      then consider "a < b" | "b < a" by linarith
      then show False using a b eq by cases auto
    qed
  qed
  have "distinct (map (\<lambda>i. id_ep (eps ! i)) (filter ?K [0..<length eps]))"
    using inj by (simp only: distinct_map distinct_filter distinct_upt simp_thms)
  then show ?thesis by (simp add: filteredEpisodes_positions comp_def)
qed

lemma filteredEpisodes_subseq: "subseq (filteredEpisodes eps t) eps"
proof -
  let ?K = "\<lambda>i. matchesSearch t (eps ! i) \<and> (\<forall>j<i. id_ep (eps ! j) \<noteq> id_ep (eps ! i))"
  have "subseq (map (\<lambda>i. eps ! i) (filter ?K [0..<length eps]))
          (map (\<lambda>i. eps ! i) [0..<length eps])"
    by (rule subseq_map) simp
  then show ?thesis by (simp add: filteredEpisodes_positions map_nth)
qed

lemma filteredEpisodes_matches:
  "e \<in> set (filteredEpisodes eps t) \<Longrightarrow> matchesSearch t e"
  by (auto simp: filteredEpisodes_positions)

lemma filteredEpisodes_fixed:
  assumes m: "\<forall>e \<in> set ys. matchesSearch t e" and d: "distinct (map id_ep ys)"
  shows "filteredEpisodes ys t = ys"
proof -
  have "filter (\<lambda>i. matchesSearch t (ys ! i) \<and> (\<forall>j<i. id_ep (ys ! j) \<noteq> id_ep (ys ! i)))
          [0..<length ys] = [0..<length ys]"
  proof (rule filter_True, intro ballI conjI allI impI)
    fix i assume "i \<in> set [0..<length ys]"
    then have i: "i < length ys" by simp
    then show "matchesSearch t (ys ! i)" using m by simp
    fix j assume j: "j < i"
    have "map id_ep ys ! j \<noteq> map id_ep ys ! i"
      using d i j by (simp add: nth_eq_iff_index_eq del: nth_map)
    then show "id_ep (ys ! j) \<noteq> id_ep (ys ! i)" using i j by simp
  qed
  then show ?thesis by (simp add: filteredEpisodes_positions map_nth)
qed

subsection \<open>C8: filtering twice\<close>

text \<open>
  Claim C8. For every episode list and search term, filtering the result of the filter
  once more with the same term gives the same list. It holds for the filter of the first
  listing and for the filter of the second listing, which also drops repeated ids.
\<close>

theorem filter_idempotent:
  "filteredEpisodes1 (filteredEpisodes1 eps t) t = filteredEpisodes1 eps t
   \<and> filteredEpisodes (filteredEpisodes eps t) t = filteredEpisodes eps t"
proof
  show "filteredEpisodes1 (filteredEpisodes1 eps t) t = filteredEpisodes1 eps t"
    by (simp add: filteredEpisodes1_def)
  show "filteredEpisodes (filteredEpisodes eps t) t = filteredEpisodes eps t"
    by (rule filteredEpisodes_fixed)
       (simp_all add: filteredEpisodes_matches filteredEpisodes_distinct_ids)
qed

theorem filter_idempotent_witness:
  "filteredEpisodes1 (filteredEpisodes1 exampleEpisodes ''wil'') ''wil''
     = [mkEpisode ''1'' ''Wilco'', mkEpisode ''3'' ''Wilco'']
   \<and> filteredEpisodes
        (filteredEpisodes
           [mkEpisode ''1'' ''Wilco'', mkEpisode ''1'' ''Abba'', mkEpisode ''3'' ''WILCO''] ''wil'')
        ''wil''
     = [mkEpisode ''1'' ''Wilco'', mkEpisode ''3'' ''WILCO'']"
proof -
  have a: "filteredEpisodes1 exampleEpisodes ''wil''
             = [mkEpisode ''1'' ''Wilco'', mkEpisode ''3'' ''Wilco'']"
    by code_simp
  have b: "filteredEpisodes
             [mkEpisode ''1'' ''Wilco'', mkEpisode ''1'' ''Abba'', mkEpisode ''3'' ''WILCO''] ''wil''
           = [mkEpisode ''1'' ''Wilco'', mkEpisode ''3'' ''WILCO'']"
    by code_simp
  show ?thesis
    using filter_idempotent [of exampleEpisodes "''wil''"]
      filter_idempotent
        [of "[mkEpisode ''1'' ''Wilco'', mkEpisode ''1'' ''Abba'', mkEpisode ''3'' ''WILCO'']" "''wil''"]
    by (simp only: a b simp_thms)
qed

subsection \<open>C9: one episode for each id\<close>

text \<open>
  Claim C9. For every episode list and search term, the filtered list of the second
  listing has no two episodes with the same id, is a subsequence of the input, and holds
  exactly the episodes that match the term and have no episode with the same id before
  them in the input: of several episodes with one id only the first can be kept.
\<close>

theorem filtered_first_per_id:
  "distinct (map id_ep (filteredEpisodes eps t))
   \<and> subseq (filteredEpisodes eps t) eps
   \<and> filteredEpisodes eps t
       = map (\<lambda>i. eps ! i)
           (filter (\<lambda>i. matchesSearch t (eps ! i) \<and> (\<forall>j<i. id_ep (eps ! j) \<noteq> id_ep (eps ! i)))
              [0..<length eps])"
  using filteredEpisodes_distinct_ids filteredEpisodes_subseq filteredEpisodes_positions
  by blast

theorem filtered_first_per_id_witness:
  "filteredEpisodes [mkEpisode ''1'' ''Wilco'', mkEpisode ''1'' ''Abba'', mkEpisode ''3'' ''WILCO''] []
     = [mkEpisode ''1'' ''Wilco'', mkEpisode ''3'' ''WILCO'']
   \<and> distinct (map id_ep
        (filteredEpisodes
           [mkEpisode ''1'' ''Wilco'', mkEpisode ''1'' ''Abba'', mkEpisode ''3'' ''WILCO''] []))
   \<and> filteredEpisodes [mkEpisode ''1'' ''Wilco'', mkEpisode ''1'' ''Abba''] ''abba'' = []"
proof -
  let ?eps = "[mkEpisode ''1'' ''Wilco'', mkEpisode ''1'' ''Abba'', mkEpisode ''3'' ''WILCO'']"
  have a: "filteredEpisodes ?eps [] = [mkEpisode ''1'' ''Wilco'', mkEpisode ''3'' ''WILCO'']"
    by code_simp
  have b: "filteredEpisodes [mkEpisode ''1'' ''Wilco'', mkEpisode ''1'' ''Abba''] ''abba'' = []"
    by code_simp
  have d: "distinct (map id_ep (filteredEpisodes ?eps []))"
    using filtered_first_per_id [of ?eps "[]"] by (rule conjunct1)
  from a d b show ?thesis by (intro conjI)
qed

subsection \<open>C2: the statistics of the empty list\<close>

text \<open>
  Claim C2, as amended. For the empty episode list the statistics are computed without
  an error: the most mentioned band, the least mentioned band and the last mentioned
  band are \<^verbatim>\<open>undefined\<close>, and the percentage of bands mentioned once and the percentage
  of known bands are NaN.
\<close>

theorem stats_empty:
  "mostMentionedBand (stats []) = None \<and> leastMentionedBand (stats []) = None
   \<and> lastMentionedBand (stats []) = None \<and> newBandPercentage (stats []) = NaN
   \<and> knownBandsPercentage [] = NaN"
  by (simp add: stats_def bandMentions_def Object_entries_def sort_cmp_def at_index_def
        js_div_def knownBandsPercentage_eq totalCountableEpisodes_def)

theorem stats_empty_witness:
  "stats [] = \<lparr> mostMentionedBand = None, leastMentionedBand = None,
                newBandPercentage = NaN, lastMentionedBand = None \<rparr>"
  using stats_empty by (cases "stats []") simp

text \<open>
  The claim as it was stated asks for a percentage of 0 and for a page that does not
  throw. On the empty list the percentage of known bands is NaN, and the page reads
  element 0 of an \<^verbatim>\<open>undefined\<close> value.
\<close>

theorem stats_empty_counterexample:
  "knownBandsPercentage [] = NaN \<and> knownBandsPercentage [] \<noteq> Num 0
   \<and> StatsPage [] = Inl TypeError"
  by (simp add: StatsPage_def stats_def bandMentions_def Object_entries_def sort_cmp_def
        at_index_def js_div_def knownBandsPercentage_eq totalCountableEpisodes_def)

subsection \<open>Grouping\<close>

lemma groupKey_known: "groupKey e = (if knownBand e then band e else ''Unknown'')"
  by (simp add: groupKey_def knownBand_iff)



lemma groupKey_prototype: "band e \<in> set objectPrototypeNames \<Longrightarrow> groupKey e = band e"
  using prototypeName_known [of e] by (simp add: groupKey_known)

lemma pushGroup_plain:
  assumes "groupKey e \<notin> set objectPrototypeNames"
  shows "pushGroup g e
           = Inr (setOwn g (groupKey e)
                   ((case map_of g (groupKey e) of None \<Rightarrow> [] | Some es \<Rightarrow> es) @ [e]))"
proof -
  have "groupKey e \<noteq> ''__proto__''" using assms proto_in_names by auto
  then show ?thesis
    by (simp add: pushGroup_def getProp_plain [OF assms] setProp_def split: option.splits)
qed

lemma pushGroup_prototype:
  assumes "groupKey e \<in> set objectPrototypeNames" and "groupKey e \<notin> fst ` set g"
  shows "pushGroup g e = Inl TypeError"
proof -
  have "map_of g (groupKey e) = None" using assms(2) by (simp add: map_of_eq_None_iff)
  moreover obtain m where "inherited (groupKey e) = Some m"
    using assms(1) inherited_None_iff [of "groupKey e"] by (cases "inherited (groupKey e)") auto
  ultimately show ?thesis by (simp add: pushGroup_def getProp_def)
qed


lemma groups_throw:
  assumes "\<exists>e \<in> set eps. groupKey e \<in> set objectPrototypeNames"
    and "\<forall>k \<in> fst ` set g. k \<notin> set objectPrototypeNames"
  shows "forEachPush g eps = Inl TypeError"
  using assms
proof (induction eps arbitrary: g)
  case Nil
  then show ?case by simp
next
  case (Cons e eps)
  show ?case
  proof (cases "groupKey e \<in> set objectPrototypeNames")
    case True
    then have "groupKey e \<notin> fst ` set g" using Cons.prems(2) by blast
    with True have "pushGroup g e = Inl TypeError" by (rule pushGroup_prototype)
    then show ?thesis by simp
  next
    case False
    let ?g1 = "setOwn g (groupKey e)
               ((case map_of g (groupKey e) of None \<Rightarrow> [] | Some es \<Rightarrow> es) @ [e])"
    have p: "pushGroup g e = Inr ?g1" using False by (rule pushGroup_plain)
    have k: "\<forall>k \<in> fst ` set ?g1. k \<notin> set objectPrototypeNames"
      using False Cons.prems(2) by (simp add: keys_setOwn)
    have r: "\<exists>e \<in> set eps. groupKey e \<in> set objectPrototypeNames"
      using False Cons.prems(1) by auto
    from Cons.IH [OF r k] p show ?thesis by simp
  qed
qed


lemma bandGroups_throws:
  assumes "\<not> noPrototypeNames eps"
  shows "bandGroups eps = Inl TypeError"
proof -
  from assms obtain e where e: "e \<in> set eps" "band e \<in> set objectPrototypeNames"
    by (auto simp: noPrototypeNames_def)
  then have "groupKey e \<in> set objectPrototypeNames" by (simp add: groupKey_prototype)
  with e(1) have "\<exists>e \<in> set eps. groupKey e \<in> set objectPrototypeNames" by blast
  then show ?thesis unfolding bandGroups_def by (rule groups_throw) simp
qed

subsection \<open>C7: the groups are a partition\<close>





subsection \<open>Sorted results\<close>

lemma sorted_insert_cmp:
  assumes total: "\<And>a b. a \<in> A \<Longrightarrow> b \<in> A \<Longrightarrow> 0 < cmp a b \<Longrightarrow> cmp b a \<le> 0"
    and trans: "\<And>a b c. a \<in> A \<Longrightarrow> b \<in> A \<Longrightarrow> c \<in> A \<Longrightarrow>
                  cmp a b \<le> 0 \<Longrightarrow> cmp b c \<le> 0 \<Longrightarrow> cmp a c \<le> 0"
    and x: "x \<in> A"
    and sub: "set xs \<subseteq> A"
    and sorted: "sorted_wrt (\<lambda>a b. cmp a b \<le> 0) xs"
  shows "sorted_wrt (\<lambda>a b. cmp a b \<le> 0) (insert_cmp cmp x xs)"
  using sub sorted
proof (induction xs)
  case Nil
  then show ?case by simp
next
  case (Cons y ys)
  from Cons.prems have yA: "y \<in> A" and ysA: "set ys \<subseteq> A"
    and yz: "\<forall>z \<in> set ys. cmp y z \<le> 0"
    and ys: "sorted_wrt (\<lambda>a b. cmp a b \<le> 0) ys" by simp_all
  show ?case
  proof (cases "cmp x y \<le> 0")
    case True
    have "\<forall>z \<in> set ys. cmp x z \<le> 0"
    proof
      fix z assume z: "z \<in> set ys"
      then have "cmp y z \<le> 0" using yz by simp
      moreover have "z \<in> A" using z ysA by blast
      ultimately show "cmp x z \<le> 0" using trans [OF x yA _ True] by blast
    qed
    then show ?thesis using True yz ys by simp
  next
    case False
    then have yx: "cmp y x \<le> 0" using total [OF x yA] by simp
    have "sorted_wrt (\<lambda>a b. cmp a b \<le> 0) (insert_cmp cmp x ys)"
      using ysA ys by (rule Cons.IH)
    then show ?thesis using False yx yz by (simp add: set_insert_cmp)
  qed
qed

lemma sorted_sort_cmp:
  assumes total: "\<And>a b. a \<in> A \<Longrightarrow> b \<in> A \<Longrightarrow> 0 < cmp a b \<Longrightarrow> cmp b a \<le> 0"
    and trans: "\<And>a b c. a \<in> A \<Longrightarrow> b \<in> A \<Longrightarrow> c \<in> A \<Longrightarrow>
                  cmp a b \<le> 0 \<Longrightarrow> cmp b c \<le> 0 \<Longrightarrow> cmp a c \<le> 0"
    and sub: "set xs \<subseteq> A"
  shows "sorted_wrt (\<lambda>a b. cmp a b \<le> 0) (sort_cmp cmp xs)"
  using sub
proof (induction xs)
  case Nil
  then show ?case by (simp add: sort_cmp_def)
next
  case (Cons x xs)
  have e: "sort_cmp cmp (x # xs) = insert_cmp cmp x (sort_cmp cmp xs)"
    by (simp add: sort_cmp_def)
  have x: "x \<in> A" and xs: "set xs \<subseteq> A" using Cons.prems by simp_all
  have s: "set (sort_cmp cmp xs) \<subseteq> A" using xs by (simp add: set_sort_cmp)
  show ?case
    unfolding e
    by (rule sorted_insert_cmp [of A cmp, OF total trans x s Cons.IH [OF xs]])
qed

lemma numbers_entry:
  assumes h: "\<forall>e \<in> set eps. band e \<in> set objectPrototypeNames \<longrightarrow> band e = ''__proto__''"
    and m: "(k, c) \<in> set (bandCounts eps)"
  shows "c = Number (mentions eps k) \<and> 0 < mentions eps k"
proof -
  have "k \<in> fst ` set (bandCounts eps)" using m by force
  then have "k \<in> set (map band (filter knownBand eps))" and "k \<noteq> ''__proto__''"
    unfolding key_set_bandCounts by auto
  then have "k \<notin> set objectPrototypeNames" using h by auto
  then show ?thesis using m by (simp add: mem_bandCounts)
qed

lemma count_sorted:
  assumes h: "\<forall>e \<in> set eps. band e \<in> set objectPrototypeNames \<longrightarrow> band e = ''__proto__''"
  shows "sorted_wrt (\<lambda>p q. mentions eps (fst q) \<le> mentions eps (fst p))
           (sort_cmp (\<lambda>a b. nanToZero (subtractCounts (snd b) (snd a)))
              (Object_entries (bandCounts eps)))"
proof -
  let ?cmp = "\<lambda>a b :: string \<times> count. nanToZero (subtractCounts (snd b) (snd a))"
  let ?A = "set (bandCounts eps)"
  have num: "snd p = Number (mentions eps (fst p))" if "p \<in> ?A" for p
    using numbers_entry [OF h, of "fst p" "snd p"] that by simp
  have c: "?cmp a b = int (mentions eps (fst b)) - int (mentions eps (fst a))"
    if "a \<in> ?A" "b \<in> ?A" for a b
    using num [OF that(1)] num [OF that(2)] by simp
  have t: "\<And>a b. a \<in> ?A \<Longrightarrow> b \<in> ?A \<Longrightarrow> 0 < ?cmp a b \<Longrightarrow> ?cmp b a \<le> 0"
    using c by simp
  have tr: "\<And>a b c. a \<in> ?A \<Longrightarrow> b \<in> ?A \<Longrightarrow> c \<in> ?A \<Longrightarrow>
                  ?cmp a b \<le> 0 \<Longrightarrow> ?cmp b c \<le> 0 \<Longrightarrow> ?cmp a c \<le> 0"
    using c by simp
  have sub: "set (Object_entries (bandCounts eps)) \<subseteq> ?A"
    by (simp add: set_Object_entries)
  have s: "sorted_wrt (\<lambda>a b. ?cmp a b \<le> 0) (sort_cmp ?cmp (Object_entries (bandCounts eps)))"
    by (rule sorted_sort_cmp [of ?A ?cmp, OF t tr sub])
  show ?thesis
  proof (rule sorted_wrt_mono_rel [OF _ s])
    fix p q
    assume "p \<in> set (sort_cmp ?cmp (Object_entries (bandCounts eps)))"
      and "q \<in> set (sort_cmp ?cmp (Object_entries (bandCounts eps)))"
      and le: "?cmp p q \<le> 0"
    then have "p \<in> ?A" "q \<in> ?A" by (simp_all add: set_sort_cmp set_Object_entries)
    from c [OF this] le show "mentions eps (fst q) \<le> mentions eps (fst p)" by simp
  qed
qed

subsection \<open>C6: the sorted lists are sorted\<close>

text \<open>
  Claim C6, as amended. For every episode list, the list sorted by band is
  non-decreasing in the band name in the order that \<^verbatim>\<open>localeCompare\<close> defines, which is the
  collation of the host and not the lexicographic order of the character codes; what is
  used of \<^verbatim>\<open>localeCompare\<close> is that it is a consistent comparator: of two names one is not
  after the other, and the order is transitive. For every episode list in which no band
  is the name of a native function of \<^verbatim>\<open>Object.prototype\<close>, every entry of the list sorted
  by count holds the mention count of its band, and the list is non-increasing in the
  mention count.
\<close>

theorem sortedBands_sorted:
  "((\<forall>a b. 0 < localeCompare a b \<longrightarrow> localeCompare b a \<le> 0)
    \<and> (\<forall>a b c. localeCompare a b \<le> 0 \<longrightarrow> localeCompare b c \<le> 0 \<longrightarrow> localeCompare a c \<le> 0)
    \<longrightarrow> sorted_wrt (\<lambda>p q. localeCompare (fst p) (fst q) \<le> 0)
          (sortedBands localeCompare Band eps))
   \<and> ((\<forall>e \<in> set eps. band e \<in> set objectPrototypeNames \<longrightarrow> band e = ''__proto__'')
    \<longrightarrow> (\<forall>(b, c) \<in> set (sortedBands localeCompare Count eps). c = Number (mentions eps b))
        \<and> sorted_wrt (\<lambda>p q. mentions eps (fst q) \<le> mentions eps (fst p))
            (sortedBands localeCompare Count eps))"
proof
  show "(\<forall>a b. 0 < localeCompare a b \<longrightarrow> localeCompare b a \<le> 0)
    \<and> (\<forall>a b c. localeCompare a b \<le> 0 \<longrightarrow> localeCompare b c \<le> 0 \<longrightarrow> localeCompare a c \<le> 0)
    \<longrightarrow> sorted_wrt (\<lambda>p q. localeCompare (fst p) (fst q) \<le> 0)
          (sortedBands localeCompare Band eps)"
  proof
    assume h: "(\<forall>a b. 0 < localeCompare a b \<longrightarrow> localeCompare b a \<le> 0)
      \<and> (\<forall>a b c. localeCompare a b \<le> 0 \<longrightarrow> localeCompare b c \<le> 0 \<longrightarrow> localeCompare a c \<le> 0)"
    let ?cmp = "bandComparator localeCompare Band"
    have c: "?cmp a b = localeCompare (fst a) (fst b)" for a b
      by (simp add: bandComparator_def)
    have t: "a \<in> UNIV \<Longrightarrow> b \<in> UNIV \<Longrightarrow> 0 < ?cmp a b \<Longrightarrow> ?cmp b a \<le> 0" for a b
      unfolding c using h [THEN conjunct1, rule_format, of "fst a" "fst b"] by simp
    have tr: "a \<in> UNIV \<Longrightarrow> b \<in> UNIV \<Longrightarrow> c \<in> UNIV \<Longrightarrow>
                ?cmp a b \<le> 0 \<Longrightarrow> ?cmp b c \<le> 0 \<Longrightarrow> ?cmp a c \<le> 0" for a b c
      unfolding c using h [THEN conjunct2, rule_format, of "fst a" "fst b" "fst c"] by simp
    have "sorted_wrt (\<lambda>p q. ?cmp p q \<le> 0) (sortedBands localeCompare Band eps)"
      unfolding sortedBands_def by (rule sorted_sort_cmp [of UNIV ?cmp, OF t tr]) simp_all
    then show "sorted_wrt (\<lambda>p q. localeCompare (fst p) (fst q) \<le> 0)
          (sortedBands localeCompare Band eps)"
      unfolding c .
  qed
next
  show "(\<forall>e \<in> set eps. band e \<in> set objectPrototypeNames \<longrightarrow> band e = ''__proto__'')
    \<longrightarrow> (\<forall>(b, c) \<in> set (sortedBands localeCompare Count eps). c = Number (mentions eps b))
        \<and> sorted_wrt (\<lambda>p q. mentions eps (fst q) \<le> mentions eps (fst p))
            (sortedBands localeCompare Count eps)"
  proof
    assume h: "\<forall>e \<in> set eps. band e \<in> set objectPrototypeNames \<longrightarrow> band e = ''__proto__''"
    have cmp: "bandComparator localeCompare Count
                 = (\<lambda>a b. nanToZero (subtractCounts (snd b) (snd a)))"
      by (intro ext) (simp add: bandComparator_def)
    have a: "\<forall>(b, c) \<in> set (sortedBands localeCompare Count eps). c = Number (mentions eps b)"
      using numbers_entry [OF h]
      by (auto simp: sortedBands_def set_sort_cmp set_Object_entries)
    have b: "sorted_wrt (\<lambda>p q. mentions eps (fst q) \<le> mentions eps (fst p))
            (sortedBands localeCompare Count eps)"
      unfolding sortedBands_def cmp using h by (rule count_sorted)
    from a b show "(\<forall>(b, c) \<in> set (sortedBands localeCompare Count eps). c = Number (mentions eps b))
        \<and> sorted_wrt (\<lambda>p q. mentions eps (fst q) \<le> mentions eps (fst p))
            (sortedBands localeCompare Count eps)" ..
  qed
qed

lemma lexCompare_le: "lexCompare a b \<le> 0 \<longleftrightarrow> a \<le> b"
  unfolding lexCompare_def by (cases "a = b"; cases "a < b") simp_all

lemma lexCompare_gt: "0 < lexCompare a b \<longleftrightarrow> b < a"
  unfolding lexCompare_def by (cases "a = b"; cases "a < b") simp_all

lemma lexCompare_consistent:
  "(\<forall>a b. 0 < lexCompare a b \<longrightarrow> lexCompare b a \<le> 0)
   \<and> (\<forall>a b c. lexCompare a b \<le> 0 \<longrightarrow> lexCompare b c \<le> 0 \<longrightarrow> lexCompare a c \<le> 0)"
  unfolding lexCompare_le lexCompare_gt by (intro conjI allI impI) simp_all

lemma lexCompare_example: "lexCompare ''Wilco'' ''Abba'' = 1" "lexCompare ''Abba'' ''Wilco'' = - 1"
  by (simp_all add: lexCompare_def less_char_def)

lemma notIndex_examples: "\<not> isArrayIndex ''Wilco''" "\<not> isArrayIndex ''Abba''"
  "\<not> isArrayIndex ''abba''" "\<not> isArrayIndex ''constructor''"
  by (simp_all add: isArrayIndex_def isDigit_def)

lemma abba_plain: "''Abba'' \<notin> set objectPrototypeNames" "''abba'' \<notin> set objectPrototypeNames"
  by (simp_all add: objectPrototypeNames_def)

lemma sortedBands_example_band:
  "sortedBands lexCompare Band
     [mkEpisode ''1'' ''Wilco'', mkEpisode ''2'' ''Abba'', mkEpisode ''3'' ''Wilco'']
   = [(''Abba'', Number 1), (''Wilco'', Number 2)]"
proof -
  have b: "bandCounts [mkEpisode ''1'' ''Wilco'', mkEpisode ''2'' ''Abba'', mkEpisode ''3'' ''Wilco'']
             = [(''Wilco'', Number 2), (''Abba'', Number 1)]"
    by (simp add: bandCounts_def unknownBand_def mkEpisode_def setProp_def
          getProp_plain [OF wilco_plain] getProp_plain [OF abba_plain(1)])
  show ?thesis
    unfolding sortedBands_def b
    by (simp add: Object_entries_def notIndex_examples sort_cmp_def bandComparator_def
          lexCompare_example)
qed

lemma sortedBands_example_count:
  "sortedBands lexCompare Count
     [mkEpisode ''1'' ''Abba'', mkEpisode ''2'' ''Wilco'', mkEpisode ''3'' ''Wilco'']
   = [(''Wilco'', Number 2), (''Abba'', Number 1)]"
proof -
  have b: "bandCounts [mkEpisode ''1'' ''Abba'', mkEpisode ''2'' ''Wilco'', mkEpisode ''3'' ''Wilco'']
             = [(''Abba'', Number 1), (''Wilco'', Number 2)]"
    by (simp add: bandCounts_def unknownBand_def mkEpisode_def setProp_def
          getProp_plain [OF wilco_plain] getProp_plain [OF abba_plain(1)])
  show ?thesis
    unfolding sortedBands_def b
    by (simp add: Object_entries_def notIndex_examples sort_cmp_def bandComparator_def)
qed

theorem sortedBands_sorted_witness:
  "sortedBands lexCompare Band
        [mkEpisode ''1'' ''Wilco'', mkEpisode ''2'' ''Abba'', mkEpisode ''3'' ''Wilco'']
      = [(''Abba'', Number 1), (''Wilco'', Number 2)]
   \<and> sorted_wrt (\<lambda>p q. lexCompare (fst p) (fst q) \<le> 0)
        (sortedBands lexCompare Band
           [mkEpisode ''1'' ''Wilco'', mkEpisode ''2'' ''Abba'', mkEpisode ''3'' ''Wilco''])
   \<and> sortedBands lexCompare Count
        [mkEpisode ''1'' ''Abba'', mkEpisode ''2'' ''Wilco'', mkEpisode ''3'' ''Wilco'']
      = [(''Wilco'', Number 2), (''Abba'', Number 1)]
   \<and> sorted_wrt (\<lambda>p q. mentions [mkEpisode ''1'' ''Abba'', mkEpisode ''2'' ''Wilco'',
                           mkEpisode ''3'' ''Wilco''] (fst q)
                        \<le> mentions [mkEpisode ''1'' ''Abba'', mkEpisode ''2'' ''Wilco'',
                             mkEpisode ''3'' ''Wilco''] (fst p))
        (sortedBands lexCompare Count
           [mkEpisode ''1'' ''Abba'', mkEpisode ''2'' ''Wilco'', mkEpisode ''3'' ''Wilco''])"
proof -
  note c = lexCompare_consistent
  let ?eps = "[mkEpisode ''1'' ''Abba'', mkEpisode ''2'' ''Wilco'', mkEpisode ''3'' ''Wilco'']"
  have b: "sorted_wrt (\<lambda>p q. lexCompare (fst p) (fst q) \<le> 0)
        (sortedBands lexCompare Band
           [mkEpisode ''1'' ''Wilco'', mkEpisode ''2'' ''Abba'', mkEpisode ''3'' ''Wilco''])"
    using sortedBands_sorted [of lexCompare
        "[mkEpisode ''1'' ''Wilco'', mkEpisode ''2'' ''Abba'', mkEpisode ''3'' ''Wilco'']",
        THEN conjunct1, THEN mp, OF c] .
  have h: "\<forall>e \<in> set ?eps. band e \<in> set objectPrototypeNames \<longrightarrow> band e = ''__proto__''"
    by (simp add: mkEpisode_def objectPrototypeNames_def)
  have n: "sorted_wrt (\<lambda>p q. mentions ?eps (fst q) \<le> mentions ?eps (fst p))
        (sortedBands lexCompare Count ?eps)"
    using sortedBands_sorted [of lexCompare ?eps, THEN conjunct2, THEN mp, OF h] by (rule conjunct2)
  from sortedBands_example_band b sortedBands_example_count n
  show ?thesis by (intro conjI)
qed

text \<open>
  The claim as it was stated names the lexicographic order and every episode list. With
  a collation that does not regard case, such as the one of the hosts, the bands Wilco
  and abba are listed as abba, Wilco, while Wilco is before abba in the lexicographic
  order of the character codes. With the band A mentioned once and then the band
  \<^verbatim>\<open>constructor\<close> mentioned twice, the count stored for \<^verbatim>\<open>constructor\<close> is a string, the
  comparator gives NaN, and the list sorted by count has the band mentioned once before
  the band mentioned twice.
\<close>

theorem sortedBands_counterexample:
  "sortedBands caseBlindCompare Band [mkEpisode ''1'' ''Wilco'', mkEpisode ''2'' ''abba'']
     = [(''abba'', Number 1), (''Wilco'', Number 1)]
   \<and> ''Wilco'' < ''abba''
   \<and> sortedBands lexCompare Count
        [mkEpisode ''1'' ''A'', mkEpisode ''2'' ''constructor'', mkEpisode ''3'' ''constructor'']
     = [(''A'', Number 1), (''constructor'', Str ''function Object() { [native code] }11'')]
   \<and> mentions [mkEpisode ''1'' ''A'', mkEpisode ''2'' ''constructor'',
                mkEpisode ''3'' ''constructor''] ''A'' = 1
   \<and> mentions [mkEpisode ''1'' ''A'', mkEpisode ''2'' ''constructor'',
                mkEpisode ''3'' ''constructor''] ''constructor'' = 2"
proof -
  have b1: "bandCounts [mkEpisode ''1'' ''Wilco'', mkEpisode ''2'' ''abba'']
              = [(''Wilco'', Number 1), (''abba'', Number 1)]"
    by (simp add: bandCounts_def unknownBand_def mkEpisode_def setProp_def
          getProp_plain [OF wilco_plain] getProp_plain [OF abba_plain(2)])
  have l: "toLowerCase ''Wilco'' = ''wilco''" "toLowerCase ''abba'' = ''abba''"
    by code_simp+
  have c1: "caseBlindCompare ''Wilco'' ''abba'' = 1"
    unfolding caseBlindCompare_def l by (simp add: lexCompare_def less_char_def)
  have s1: "sortedBands caseBlindCompare Band [mkEpisode ''1'' ''Wilco'', mkEpisode ''2'' ''abba'']
              = [(''abba'', Number 1), (''Wilco'', Number 1)]"
    unfolding sortedBands_def b1
    by (simp add: Object_entries_def notIndex_examples sort_cmp_def bandComparator_def c1)
  have w: "''Wilco'' < ''abba''" by (simp add: less_char_def)
  have na: "\<not> isArrayIndex ''A''" by (simp add: isArrayIndex_def isDigit_def)
  have b2: "bandCounts [mkEpisode ''1'' ''A'', mkEpisode ''2'' ''constructor'',
                        mkEpisode ''3'' ''constructor'']
              = [(''A'', Number 1), (''constructor'', Str ''function Object() { [native code] }11'')]"
    by (simp add: bandCounts_def unknownBand_def mkEpisode_def setProp_def
          getProp_def inherited_def objectPrototypeNames_def)
  have s2: "sortedBands lexCompare Count
        [mkEpisode ''1'' ''A'', mkEpisode ''2'' ''constructor'', mkEpisode ''3'' ''constructor'']
     = [(''A'', Number 1), (''constructor'', Str ''function Object() { [native code] }11'')]"
    unfolding sortedBands_def b2
    by (simp add: Object_entries_def notIndex_examples na sort_cmp_def bandComparator_def)
  have m1: "mentions [mkEpisode ''1'' ''A'', mkEpisode ''2'' ''constructor'',
                mkEpisode ''3'' ''constructor''] ''A'' = 1"
    by (simp add: mentions_def mkEpisode_def knownBand_def)
  have m2: "mentions [mkEpisode ''1'' ''A'', mkEpisode ''2'' ''constructor'',
                mkEpisode ''3'' ''constructor''] ''constructor'' = 2"
    by (simp add: mentions_def mkEpisode_def knownBand_def)
  from s1 w s2 m1 m2 show ?thesis by (intro conjI)
qed

subsection \<open>Stable sorting: the first and the last element\<close>

lemma insert_cmp_insort_key:
  fixes f :: "'a \<Rightarrow> int"
  assumes "\<forall>y \<in> set ys. cmp x y \<le> 0 \<longleftrightarrow> f x \<le> f y"
  shows "insert_cmp cmp x ys = insort_key f x ys"
  using assms by (induction ys) auto

lemma sort_cmp_sort_key:
  fixes f :: "'a \<Rightarrow> int"
  assumes "\<forall>x \<in> set xs. \<forall>y \<in> set xs. cmp x y \<le> 0 \<longleftrightarrow> f x \<le> f y"
  shows "sort_cmp cmp xs = sort_key f xs"
  using assms
proof (induction xs)
  case Nil
  then show ?case by (simp add: sort_cmp_def)
next
  case (Cons x xs)
  have r: "\<forall>a \<in> set xs. \<forall>b \<in> set xs. cmp a b \<le> 0 \<longleftrightarrow> f a \<le> f b"
    using Cons.prems by simp
  have e: "sort_cmp cmp (x # xs) = insert_cmp cmp x (sort_cmp cmp xs)"
    by (simp add: sort_cmp_def)
  have "\<forall>y \<in> set (sort_key f xs). cmp x y \<le> 0 \<longleftrightarrow> f x \<le> f y"
    using Cons.prems by simp
  then have "insert_cmp cmp x (sort_key f xs) = insort_key f x (sort_key f xs)"
    by (rule insert_cmp_insort_key)
  then show ?case unfolding e Cons.IH [OF r] by simp
qed

lemma hd_filter_index:
  "filter P xs \<noteq> [] \<Longrightarrow>
     \<exists>i<length xs. hd (filter P xs) = xs ! i \<and> P (xs ! i) \<and> (\<forall>j<i. \<not> P (xs ! j))"
proof (induction xs)
  case Nil
  then show ?case by simp
next
  case (Cons x xs)
  show ?case
  proof (cases "P x")
    case True
    then have "hd (filter P (x # xs)) = (x # xs) ! 0 \<and> P ((x # xs) ! 0)
                 \<and> (\<forall>j<0. \<not> P ((x # xs) ! j))" by simp
    then show ?thesis by (intro exI [of _ 0]) simp
  next
    case False
    then have "filter P xs \<noteq> []" using Cons.prems by simp
    then obtain i where i: "i < length xs" "hd (filter P xs) = xs ! i" "P (xs ! i)"
        "\<forall>j<i. \<not> P (xs ! j)"
      using Cons.IH by blast
    have "\<forall>j<Suc i. \<not> P ((x # xs) ! j)"
      using False i(4) by (simp add: less_Suc_eq_0_disj) auto
    then have "Suc i < length (x # xs) \<and> hd (filter P (x # xs)) = (x # xs) ! Suc i
                 \<and> P ((x # xs) ! Suc i) \<and> (\<forall>j<Suc i. \<not> P ((x # xs) ! j))"
      using False i by simp
    then show ?thesis by blast
  qed
qed

lemma last_filter_index:
  "filter P xs \<noteq> [] \<Longrightarrow>
     \<exists>i<length xs. last (filter P xs) = xs ! i \<and> P (xs ! i)
        \<and> (\<forall>j. i < j \<and> j < length xs \<longrightarrow> \<not> P (xs ! j))"
proof (induction xs)
  case Nil
  then show ?case by simp
next
  case (Cons x xs)
  show ?case
  proof (cases "filter P xs = []")
    case True
    then have px: "P x" using Cons.prems by (auto split: if_splits)
    have none: "\<forall>j. 0 < j \<and> j < length (x # xs) \<longrightarrow> \<not> P ((x # xs) ! j)"
    proof (intro allI impI)
      fix j assume j: "0 < j \<and> j < length (x # xs)"
      then obtain k where k: "j = Suc k" "k < length xs" by (cases j) auto
      have "\<not> P (xs ! k)" using True k(2) by (auto simp: filter_empty_conv)
      then show "\<not> P ((x # xs) ! j)" using k by simp
    qed
    have "0 < length (x # xs) \<and> last (filter P (x # xs)) = (x # xs) ! 0 \<and> P ((x # xs) ! 0)
            \<and> (\<forall>j. 0 < j \<and> j < length (x # xs) \<longrightarrow> \<not> P ((x # xs) ! j))"
      using True px none by simp
    then show ?thesis by blast
  next
    case False
    then obtain i where i: "i < length xs" "last (filter P xs) = xs ! i" "P (xs ! i)"
        "\<forall>j. i < j \<and> j < length xs \<longrightarrow> \<not> P (xs ! j)"
      using Cons.IH by blast
    have none: "\<forall>j. Suc i < j \<and> j < length (x # xs) \<longrightarrow> \<not> P ((x # xs) ! j)"
    proof (intro allI impI)
      fix j assume j: "Suc i < j \<and> j < length (x # xs)"
      then obtain k where k: "j = Suc k" "i < k" "k < length xs" by (cases j) auto
      then have "\<not> P (xs ! k)" using i(4) by simp
      then show "\<not> P ((x # xs) ! j)" using k by simp
    qed
    have "Suc i < length (x # xs) \<and> last (filter P (x # xs)) = (x # xs) ! Suc i
            \<and> P ((x # xs) ! Suc i)
            \<and> (\<forall>j. Suc i < j \<and> j < length (x # xs) \<longrightarrow> \<not> P ((x # xs) ! j))"
      using False i none by simp
    then show ?thesis by blast
  qed
qed

lemma last_filter_last: "xs \<noteq> [] \<Longrightarrow> P (last xs) \<Longrightarrow> last (filter P xs) = last xs"
  by (induction xs) (auto simp: filter_empty_conv)

lemma hd_filter_hd: "xs \<noteq> [] \<Longrightarrow> P (hd xs) \<Longrightarrow> hd (filter P xs) = hd xs"
  by (cases xs) auto

lemma sorted_hd_min:
  fixes f :: "'a \<Rightarrow> int"
  shows "sorted (map f ys) \<Longrightarrow> y \<in> set ys \<Longrightarrow> f (hd ys) \<le> f y"
  by (cases ys) auto

lemma sorted_last_max:
  fixes f :: "'a \<Rightarrow> int"
  shows "sorted (map f ys) \<Longrightarrow> y \<in> set ys \<Longrightarrow> f y \<le> f (last ys)"
  by (induction ys) (auto split: if_splits)

lemma stable_hd:
  fixes f :: "'a \<Rightarrow> int"
  assumes ne: "xs \<noteq> []"
  shows "\<exists>i<length xs. hd (sort_key f xs) = xs ! i
           \<and> (\<forall>j<length xs. f (xs ! i) \<le> f (xs ! j)) \<and> (\<forall>j<i. f (xs ! i) < f (xs ! j))"
proof -
  let ?ys = "sort_key f xs"
  let ?m = "f (hd ?ys)"
  have yne: "?ys \<noteq> []" using ne by (metis length_sort length_0_conv)
  have min: "?m \<le> f y" if "y \<in> set xs" for y
    using sorted_hd_min [of f ?ys y] that by simp
  have st: "filter (\<lambda>y. f y = ?m) ?ys = filter (\<lambda>y. f y = ?m) xs"
    by (rule sort_key_stable)
  have h: "hd (filter (\<lambda>y. f y = ?m) xs) = hd ?ys"
    unfolding st [symmetric] using yne by (rule hd_filter_hd) simp
  have "hd ?ys \<in> set xs" using hd_in_set [OF yne] by simp
  then have fne: "filter (\<lambda>y. f y = ?m) xs \<noteq> []" by (auto simp: filter_empty_conv)
  from hd_filter_index [OF fne] obtain i where i: "i < length xs"
      "hd (filter (\<lambda>y. f y = ?m) xs) = xs ! i" "f (xs ! i) = ?m" "\<forall>j<i. f (xs ! j) \<noteq> ?m"
    by blast
  have a: "\<forall>j<length xs. f (xs ! i) \<le> f (xs ! j)"
    using min i(3) by simp
  have b: "\<forall>j<i. f (xs ! i) < f (xs ! j)"
  proof (intro allI impI)
    fix j assume j: "j < i"
    then have "j < length xs" using i(1) by simp
    then have "?m \<le> f (xs ! j)" using min by simp
    moreover have "f (xs ! j) \<noteq> ?m" using i(4) j by simp
    ultimately show "f (xs ! i) < f (xs ! j)" using i(3) by simp
  qed
  have "hd ?ys = xs ! i" using h i(2) by simp
  with i(1) a b show ?thesis by blast
qed

lemma stable_last:
  fixes f :: "'a \<Rightarrow> int"
  assumes ne: "xs \<noteq> []"
  shows "\<exists>i<length xs. last (sort_key f xs) = xs ! i
           \<and> (\<forall>j<length xs. f (xs ! j) \<le> f (xs ! i))
           \<and> (\<forall>j. i < j \<and> j < length xs \<longrightarrow> f (xs ! j) < f (xs ! i))"
proof -
  let ?ys = "sort_key f xs"
  let ?m = "f (last ?ys)"
  have yne: "?ys \<noteq> []" using ne by (metis length_sort length_0_conv)
  have max: "f y \<le> ?m" if "y \<in> set xs" for y
    using sorted_last_max [of f ?ys y] that by simp
  have st: "filter (\<lambda>y. f y = ?m) ?ys = filter (\<lambda>y. f y = ?m) xs"
    by (rule sort_key_stable)
  have h: "last (filter (\<lambda>y. f y = ?m) xs) = last ?ys"
    unfolding st [symmetric] using yne by (rule last_filter_last) simp
  have "last ?ys \<in> set xs" using last_in_set [OF yne] by simp
  then have fne: "filter (\<lambda>y. f y = ?m) xs \<noteq> []" by (auto simp: filter_empty_conv)
  from last_filter_index [OF fne] obtain i where i: "i < length xs"
      "last (filter (\<lambda>y. f y = ?m) xs) = xs ! i" "f (xs ! i) = ?m"
      "\<forall>j. i < j \<and> j < length xs \<longrightarrow> f (xs ! j) \<noteq> ?m"
    by blast
  have a: "\<forall>j<length xs. f (xs ! j) \<le> f (xs ! i)"
    using max i(3) by simp
  have b: "\<forall>j. i < j \<and> j < length xs \<longrightarrow> f (xs ! j) < f (xs ! i)"
  proof (intro allI impI)
    fix j assume j: "i < j \<and> j < length xs"
    then have "f (xs ! j) \<le> ?m" using max by simp
    moreover have "f (xs ! j) \<noteq> ?m" using i(4) j by simp
    ultimately show "f (xs ! j) < f (xs ! i)" using i(3) by simp
  qed
  have "last ?ys = xs ! i" using h i(2) by simp
  with i(1) a b show ?thesis by blast
qed

subsection \<open>The statistics\<close>

lemma at_index_first: "at_index xs 0 = (if xs = [] then None else Some (hd xs))"
  by (cases xs) (simp_all add: at_index_def)

lemma at_index_last:
  "at_index xs (int (length xs) - 1) = (if xs = [] then None else Some (last xs))"
proof (cases "xs = []")
  case True
  then show ?thesis by (simp add: at_index_def)
next
  case False
  then have "nat (int (length xs) - 1) = length xs - 1" by simp
  then show ?thesis using False by (simp add: at_index_def last_conv_nth)
qed

lemma entries_Nil_iff:
  "Object_entries (bandMentions eps) = [] \<longleftrightarrow> bandCounts eps = []"
  using length_Object_entries [of "bandCounts eps"]
  by (simp only: bandMentions_eq length_0_conv [symmetric])

lemma noPrototypeNames_Nil:
  "noPrototypeNames eps \<Longrightarrow> bandCounts eps = [] \<longleftrightarrow> filter knownBand eps = []"
proof -
  assume h: "noPrototypeNames eps"
  have "bandCounts eps = [] \<longleftrightarrow> fst ` set (bandCounts eps) = {}" by simp
  also have "\<dots> \<longleftrightarrow> filter knownBand eps = []"
    unfolding noPrototypeNames_keys [OF h] by (auto simp: filter_empty_conv)
  finally show ?thesis .
qed

lemma stats_sorted_by_count:
  assumes h: "noPrototypeNames eps"
  shows "sort_cmp (\<lambda>a b. nanToZero (subtractCounts (snd b) (snd a)))
           (Object_entries (bandMentions eps))
         = sort_key (\<lambda>p. - int (mentions eps (fst p))) (Object_entries (bandMentions eps))"
proof (rule sort_cmp_sort_key, intro ballI)
  fix x y
  assume "x \<in> set (Object_entries (bandMentions eps))"
    and "y \<in> set (Object_entries (bandMentions eps))"
  then have x: "(fst x, snd x) \<in> set (bandCounts eps)"
    and y: "(fst y, snd y) \<in> set (bandCounts eps)"
    by (simp_all add: set_Object_entries bandMentions_eq)
  have "snd x = Number (mentions eps (fst x))" "snd y = Number (mentions eps (fst y))"
    using noPrototypeNames_entry [OF h x] noPrototypeNames_entry [OF h y] by simp_all
  then show "nanToZero (subtractCounts (snd y) (snd x)) \<le> 0
               \<longleftrightarrow> - int (mentions eps (fst x)) \<le> - int (mentions eps (fst y))"
    by simp
qed

lemma most_first_max:
  assumes h: "noPrototypeNames eps" and k: "filter knownBand eps \<noteq> []"
  shows "\<exists>i<length (Object_entries (bandMentions eps)).
           mostMentionedBand (stats eps) = Some (Object_entries (bandMentions eps) ! i)
           \<and> (\<forall>j<length (Object_entries (bandMentions eps)).
                 mentions eps (fst (Object_entries (bandMentions eps) ! j))
                   \<le> mentions eps (fst (Object_entries (bandMentions eps) ! i)))
           \<and> (\<forall>j<i. mentions eps (fst (Object_entries (bandMentions eps) ! j))
                        < mentions eps (fst (Object_entries (bandMentions eps) ! i)))"
proof -
  let ?es = "Object_entries (bandMentions eps)"
  let ?f = "\<lambda>p :: string \<times> count. - int (mentions eps (fst p))"
  have ne: "?es \<noteq> []" using k by (simp add: entries_Nil_iff noPrototypeNames_Nil [OF h])
  then have sne: "sort_key ?f ?es \<noteq> []" by (metis length_sort length_0_conv)
  have m: "mostMentionedBand (stats eps) = Some (hd (sort_key ?f ?es))"
    using sne by (simp add: stats_def Let_def stats_sorted_by_count [OF h] at_index_first)
  from stable_hd [OF ne, of ?f] obtain i where i: "i < length ?es"
      "hd (sort_key ?f ?es) = ?es ! i"
      "\<forall>j<length ?es. ?f (?es ! i) \<le> ?f (?es ! j)" "\<forall>j<i. ?f (?es ! i) < ?f (?es ! j)"
    by blast
  have "mostMentionedBand (stats eps) = Some (?es ! i)" using m i(2) by simp
  moreover have "\<forall>j<length ?es. mentions eps (fst (?es ! j)) \<le> mentions eps (fst (?es ! i))"
    using i(3) by simp
  moreover have "\<forall>j<i. mentions eps (fst (?es ! j)) < mentions eps (fst (?es ! i))"
    using i(4) by simp
  ultimately show ?thesis using i(1) by blast
qed

lemma least_last_min:
  assumes h: "noPrototypeNames eps" and k: "filter knownBand eps \<noteq> []"
  shows "\<exists>i<length (Object_entries (bandMentions eps)).
           leastMentionedBand (stats eps) = Some (Object_entries (bandMentions eps) ! i)
           \<and> (\<forall>j<length (Object_entries (bandMentions eps)).
                 mentions eps (fst (Object_entries (bandMentions eps) ! i))
                   \<le> mentions eps (fst (Object_entries (bandMentions eps) ! j)))
           \<and> (\<forall>j. i < j \<and> j < length (Object_entries (bandMentions eps)) \<longrightarrow>
                 mentions eps (fst (Object_entries (bandMentions eps) ! i))
                   < mentions eps (fst (Object_entries (bandMentions eps) ! j)))"
proof -
  let ?es = "Object_entries (bandMentions eps)"
  let ?f = "\<lambda>p :: string \<times> count. - int (mentions eps (fst p))"
  have ne: "?es \<noteq> []" using k by (simp add: entries_Nil_iff noPrototypeNames_Nil [OF h])
  then have sne: "sort_key ?f ?es \<noteq> []" by (metis length_sort length_0_conv)
  have m: "leastMentionedBand (stats eps) = Some (last (sort_key ?f ?es))"
    using sne by (simp add: stats_def Let_def stats_sorted_by_count [OF h] at_index_last)
  from stable_last [OF ne, of ?f] obtain i where i: "i < length ?es"
      "last (sort_key ?f ?es) = ?es ! i"
      "\<forall>j<length ?es. ?f (?es ! j) \<le> ?f (?es ! i)"
      "\<forall>j. i < j \<and> j < length ?es \<longrightarrow> ?f (?es ! j) < ?f (?es ! i)"
    by blast
  have "leastMentionedBand (stats eps) = Some (?es ! i)" using m i(2) by simp
  moreover have "\<forall>j<length ?es. mentions eps (fst (?es ! i)) \<le> mentions eps (fst (?es ! j))"
    using i(3) by simp
  moreover have "\<forall>j. i < j \<and> j < length ?es \<longrightarrow>
                   mentions eps (fst (?es ! i)) < mentions eps (fst (?es ! j))"
    using i(4) by simp
  ultimately show ?thesis using i(1) by blast
qed

lemma superlatives_none:
  assumes "bandCounts eps = []"
  shows "mostMentionedBand (stats eps) = None \<and> leastMentionedBand (stats eps) = None"
proof -
  have "Object_entries (bandMentions eps) = []" using assms by (simp add: entries_Nil_iff)
  then show ?thesis by (simp add: stats_def Let_def sort_cmp_def at_index_def)
qed

lemma entries_order:
  assumes h: "noPrototypeNames eps"
  shows "map fst (Object_entries (bandMentions eps))
           = sort_key toIndex
               (filter isArrayIndex (firstOccurrences (map band (filter knownBand eps))))
             @ filter (\<lambda>k. \<not> isArrayIndex k)
                 (firstOccurrences (map band (filter knownBand eps)))"
proof -
  have "filter (\<lambda>b. b \<noteq> ''__proto__'') (map band (filter knownBand eps))
          = map band (filter knownBand eps)"
    using h proto_in_names by (intro filter_True) (auto simp: noPrototypeNames_def)
  then have "map fst (bandCounts eps) = firstOccurrences (map band (filter knownBand eps))"
    by (simp add: keys_bandCounts)
  then show ?thesis
    using Object_keys_order [of "bandCounts eps"] by (simp add: Object_keys_def bandMentions_eq)
qed

subsection \<open>C5: the most and the least mentioned band\<close>

text \<open>
  Claim C5, as amended. For every episode list in which no band is the name of a member
  of \<^verbatim>\<open>Object.prototype\<close>: the entries of the counting object, as \<^verbatim>\<open>Object.entries\<close> lists
  them, are exactly the known bands of the list, each with its mention count, in this
  order: first the bands whose name is an array index, in ascending numeric order, then
  the other bands in the order of their first occurrence in the list. When some episode
  has a known band, the most mentioned band is an entry of the greatest mention count,
  and of the entries with that count the first in this order; the least mentioned band
  is an entry of the smallest mention count, and of the entries with that count the last
  in this order. When no episode has a known band, both are \<^verbatim>\<open>undefined\<close>.
\<close>

theorem superlatives:
  "noPrototypeNames eps \<longrightarrow>
     map fst (Object_entries (bandMentions eps))
       = sort_key toIndex
           (filter isArrayIndex (firstOccurrences (map band (filter knownBand eps))))
         @ filter (\<lambda>k. \<not> isArrayIndex k)
             (firstOccurrences (map band (filter knownBand eps)))
     \<and> set (map fst (Object_entries (bandMentions eps))) = set (map band (filter knownBand eps))
     \<and> (\<forall>(b, c) \<in> set (Object_entries (bandMentions eps)).
           c = Number (mentions eps b) \<and> 0 < mentions eps b)
     \<and> (filter knownBand eps = [] \<longrightarrow>
           mostMentionedBand (stats eps) = None \<and> leastMentionedBand (stats eps) = None)
     \<and> (filter knownBand eps \<noteq> [] \<longrightarrow>
          (\<exists>i<length (Object_entries (bandMentions eps)).
             mostMentionedBand (stats eps) = Some (Object_entries (bandMentions eps) ! i)
             \<and> (\<forall>j<length (Object_entries (bandMentions eps)).
                   mentions eps (fst (Object_entries (bandMentions eps) ! j))
                     \<le> mentions eps (fst (Object_entries (bandMentions eps) ! i)))
             \<and> (\<forall>j<i. mentions eps (fst (Object_entries (bandMentions eps) ! j))
                          < mentions eps (fst (Object_entries (bandMentions eps) ! i))))
          \<and> (\<exists>i<length (Object_entries (bandMentions eps)).
             leastMentionedBand (stats eps) = Some (Object_entries (bandMentions eps) ! i)
             \<and> (\<forall>j<length (Object_entries (bandMentions eps)).
                   mentions eps (fst (Object_entries (bandMentions eps) ! i))
                     \<le> mentions eps (fst (Object_entries (bandMentions eps) ! j)))
             \<and> (\<forall>j. i < j \<and> j < length (Object_entries (bandMentions eps)) \<longrightarrow>
                   mentions eps (fst (Object_entries (bandMentions eps) ! i))
                     < mentions eps (fst (Object_entries (bandMentions eps) ! j)))))"
proof
  assume h: "noPrototypeNames eps"
  have a: "map fst (Object_entries (bandMentions eps))
       = sort_key toIndex
           (filter isArrayIndex (firstOccurrences (map band (filter knownBand eps))))
         @ filter (\<lambda>k. \<not> isArrayIndex k)
             (firstOccurrences (map band (filter knownBand eps)))"
    using h by (rule entries_order)
  have b: "set (map fst (Object_entries (bandMentions eps))) = set (map band (filter knownBand eps))"
    using noPrototypeNames_keys [OF h] by (simp add: set_Object_entries bandMentions_eq)
  have c: "\<forall>(b, c) \<in> set (Object_entries (bandMentions eps)).
           c = Number (mentions eps b) \<and> 0 < mentions eps b"
    using noPrototypeNames_entry [OF h] by (auto simp: set_Object_entries bandMentions_eq)
  have d: "filter knownBand eps = [] \<longrightarrow>
           mostMentionedBand (stats eps) = None \<and> leastMentionedBand (stats eps) = None"
    using superlatives_none [of eps] by (simp add: noPrototypeNames_Nil [OF h])
  have e: "filter knownBand eps \<noteq> [] \<longrightarrow>
          (\<exists>i<length (Object_entries (bandMentions eps)).
             mostMentionedBand (stats eps) = Some (Object_entries (bandMentions eps) ! i)
             \<and> (\<forall>j<length (Object_entries (bandMentions eps)).
                   mentions eps (fst (Object_entries (bandMentions eps) ! j))
                     \<le> mentions eps (fst (Object_entries (bandMentions eps) ! i)))
             \<and> (\<forall>j<i. mentions eps (fst (Object_entries (bandMentions eps) ! j))
                          < mentions eps (fst (Object_entries (bandMentions eps) ! i))))
          \<and> (\<exists>i<length (Object_entries (bandMentions eps)).
             leastMentionedBand (stats eps) = Some (Object_entries (bandMentions eps) ! i)
             \<and> (\<forall>j<length (Object_entries (bandMentions eps)).
                   mentions eps (fst (Object_entries (bandMentions eps) ! i))
                     \<le> mentions eps (fst (Object_entries (bandMentions eps) ! j)))
             \<and> (\<forall>j. i < j \<and> j < length (Object_entries (bandMentions eps)) \<longrightarrow>
                   mentions eps (fst (Object_entries (bandMentions eps) ! i))
                     < mentions eps (fst (Object_entries (bandMentions eps) ! j))))"
    using most_first_max [OF h] least_last_min [OF h] by (intro impI conjI)
  from a b c d e
  show "map fst (Object_entries (bandMentions eps))
       = sort_key toIndex
           (filter isArrayIndex (firstOccurrences (map band (filter knownBand eps))))
         @ filter (\<lambda>k. \<not> isArrayIndex k)
             (firstOccurrences (map band (filter knownBand eps)))
     \<and> set (map fst (Object_entries (bandMentions eps))) = set (map band (filter knownBand eps))
     \<and> (\<forall>(b, c) \<in> set (Object_entries (bandMentions eps)).
           c = Number (mentions eps b) \<and> 0 < mentions eps b)
     \<and> (filter knownBand eps = [] \<longrightarrow>
           mostMentionedBand (stats eps) = None \<and> leastMentionedBand (stats eps) = None)
     \<and> (filter knownBand eps \<noteq> [] \<longrightarrow>
          (\<exists>i<length (Object_entries (bandMentions eps)).
             mostMentionedBand (stats eps) = Some (Object_entries (bandMentions eps) ! i)
             \<and> (\<forall>j<length (Object_entries (bandMentions eps)).
                   mentions eps (fst (Object_entries (bandMentions eps) ! j))
                     \<le> mentions eps (fst (Object_entries (bandMentions eps) ! i)))
             \<and> (\<forall>j<i. mentions eps (fst (Object_entries (bandMentions eps) ! j))
                          < mentions eps (fst (Object_entries (bandMentions eps) ! i))))
          \<and> (\<exists>i<length (Object_entries (bandMentions eps)).
             leastMentionedBand (stats eps) = Some (Object_entries (bandMentions eps) ! i)
             \<and> (\<forall>j<length (Object_entries (bandMentions eps)).
                   mentions eps (fst (Object_entries (bandMentions eps) ! i))
                     \<le> mentions eps (fst (Object_entries (bandMentions eps) ! j)))
             \<and> (\<forall>j. i < j \<and> j < length (Object_entries (bandMentions eps)) \<longrightarrow>
                   mentions eps (fst (Object_entries (bandMentions eps) ! i))
                     < mentions eps (fst (Object_entries (bandMentions eps) ! j)))))"
    by (intro conjI)
qed

lemma index_examples:
  "\<not> isArrayIndex ''A''" "\<not> isArrayIndex ''B''"
  "isArrayIndex ''311''" "isArrayIndex ''12''" "toIndex ''311'' = 311" "toIndex ''12'' = 12"
  by (simp_all add: isArrayIndex_def isDigit_def toIndex_def)

lemma plain_examples:
  "''A'' \<notin> set objectPrototypeNames" "''B'' \<notin> set objectPrototypeNames"
  "''311'' \<notin> set objectPrototypeNames" "''12'' \<notin> set objectPrototypeNames"
  by (simp_all add: objectPrototypeNames_def)

lemma stats_example:
  "bandMentions [mkEpisode ''1'' ''B'', mkEpisode ''2'' ''311'', mkEpisode ''3'' ''B'',
                 mkEpisode ''4'' ''12'']
     = [(''B'', Number 2), (''311'', Number 1), (''12'', Number 1)]"
  "Object_entries [(''B'', Number 2), (''311'', Number 1), (''12'', Number 1)]
     = [(''12'', Number 1), (''311'', Number 1), (''B'', Number 2)]"
  "sort_cmp (\<lambda>a b. nanToZero (subtractCounts (snd b) (snd a)))
       [(''12'', Number 1), (''311'', Number 1), (''B'', Number 2)]
     = [(''B'', Number 2), (''12'', Number 1), (''311'', Number 1)]"
  by (simp_all add: bandMentions_def knownBand_def mkEpisode_def setProp_def
        getProp_plain [OF plain_examples(2)] getProp_plain [OF plain_examples(3)]
        getProp_plain [OF plain_examples(4)]
        Object_entries_def index_examples sort_cmp_def)

theorem superlatives_witness:
  "noPrototypeNames [mkEpisode ''1'' ''B'', mkEpisode ''2'' ''311'', mkEpisode ''3'' ''B'',
                     mkEpisode ''4'' ''12'']
   \<and> filter knownBand [mkEpisode ''1'' ''B'', mkEpisode ''2'' ''311'', mkEpisode ''3'' ''B'',
                     mkEpisode ''4'' ''12''] \<noteq> []
   \<and> map fst (Object_entries (bandMentions
         [mkEpisode ''1'' ''B'', mkEpisode ''2'' ''311'', mkEpisode ''3'' ''B'',
          mkEpisode ''4'' ''12''])) = [''12'', ''311'', ''B'']
   \<and> mostMentionedBand (stats [mkEpisode ''1'' ''B'', mkEpisode ''2'' ''311'',
         mkEpisode ''3'' ''B'', mkEpisode ''4'' ''12'']) = Some (''B'', Number 2)
   \<and> leastMentionedBand (stats [mkEpisode ''1'' ''B'', mkEpisode ''2'' ''311'',
         mkEpisode ''3'' ''B'', mkEpisode ''4'' ''12'']) = Some (''311'', Number 1)
   \<and> noPrototypeNames [] \<and> filter knownBand [] = []
   \<and> mostMentionedBand (stats []) = None \<and> leastMentionedBand (stats []) = None"
proof -
  let ?eps = "[mkEpisode ''1'' ''B'', mkEpisode ''2'' ''311'', mkEpisode ''3'' ''B'',
               mkEpisode ''4'' ''12'']"
  have np: "noPrototypeNames ?eps"
    by (simp add: noPrototypeNames_def mkEpisode_def objectPrototypeNames_def)
  have k: "filter knownBand ?eps = ?eps"
    by (simp add: knownBand_def mkEpisode_def)
  have ne: "filter knownBand ?eps \<noteq> []" unfolding k by simp
  have "map fst (Object_entries (bandMentions ?eps))
       = sort_key toIndex
           (filter isArrayIndex (firstOccurrences (map band (filter knownBand ?eps))))
         @ filter (\<lambda>k. \<not> isArrayIndex k)
             (firstOccurrences (map band (filter knownBand ?eps)))"
    using superlatives [of ?eps] np by blast
  then have o: "map fst (Object_entries (bandMentions ?eps)) = [''12'', ''311'', ''B'']"
    unfolding k by (simp add: mkEpisode_def index_examples)
  have m: "mostMentionedBand (stats ?eps) = Some (''B'', Number 2)"
    unfolding stats_def Let_def stats_example by (simp add: at_index_def)
  have l: "leastMentionedBand (stats ?eps) = Some (''311'', Number 1)"
    unfolding stats_def Let_def stats_example by (simp add: at_index_def)
  have n0: "noPrototypeNames []" by (simp add: noPrototypeNames_def)
  have e: "filter knownBand [] = []" by simp
  have n: "mostMentionedBand (stats []) = None \<and> leastMentionedBand (stats []) = None"
    using superlatives [of "[]"] n0 by simp
  from np ne o m l n0 e n [THEN conjunct1] n [THEN conjunct2] show ?thesis by (intro conjI)
qed

text \<open>
  The claim as it was stated breaks every tie by the first occurrence in the list, for
  every list. With the two bands A and B, each mentioned once, the least mentioned band
  is B, the later one. With the bands B and 311, each mentioned once, the most mentioned
  band is 311, the later one, since \<^verbatim>\<open>Object.entries\<close> lists the key 311 first. With the one
  episode of the known band \<^verbatim>\<open>__proto__\<close> there is no most mentioned band. With the band A
  mentioned once and then the band \<^verbatim>\<open>constructor\<close> mentioned twice, the most mentioned band
  is A, since the count stored for \<^verbatim>\<open>constructor\<close> is a string.
\<close>

theorem superlatives_counterexample:
  "bandMentions [mkEpisode ''1'' ''A'', mkEpisode ''2'' ''B'']
     = [(''A'', Number 1), (''B'', Number 1)]
   \<and> leastMentionedBand (stats [mkEpisode ''1'' ''A'', mkEpisode ''2'' ''B''])
       = Some (''B'', Number 1)
   \<and> bandMentions [mkEpisode ''1'' ''B'', mkEpisode ''2'' ''311'']
       = [(''B'', Number 1), (''311'', Number 1)]
   \<and> mostMentionedBand (stats [mkEpisode ''1'' ''B'', mkEpisode ''2'' ''311''])
       = Some (''311'', Number 1)
   \<and> knownBand (mkEpisode ''1'' ''__proto__'')
   \<and> mostMentionedBand (stats [mkEpisode ''1'' ''__proto__'']) = None
   \<and> mostMentionedBand (stats [mkEpisode ''1'' ''A'', mkEpisode ''2'' ''constructor'',
         mkEpisode ''3'' ''constructor'']) = Some (''A'', Number 1)
   \<and> mentions [mkEpisode ''1'' ''A'', mkEpisode ''2'' ''constructor'',
         mkEpisode ''3'' ''constructor''] ''constructor'' = 2"
proof -
  have a: "bandMentions [mkEpisode ''1'' ''A'', mkEpisode ''2'' ''B'']
             = [(''A'', Number 1), (''B'', Number 1)]"
    by (simp add: bandMentions_def knownBand_def mkEpisode_def setProp_def
          getProp_plain [OF plain_examples(1)] getProp_plain [OF plain_examples(2)])
  have b: "bandMentions [mkEpisode ''1'' ''B'', mkEpisode ''2'' ''311'']
             = [(''B'', Number 1), (''311'', Number 1)]"
    by (simp add: bandMentions_def knownBand_def mkEpisode_def setProp_def
          getProp_plain [OF plain_examples(2)] getProp_plain [OF plain_examples(3)])
  have ea: "Object_entries [(''A'', Number 1), (''B'', Number 1)]
              = [(''A'', Number 1), (''B'', Number 1)]"
    by (simp add: Object_entries_def index_examples)
  have eb: "Object_entries [(''B'', Number 1), (''311'', Number 1)]
              = [(''311'', Number 1), (''B'', Number 1)]"
    by (simp add: Object_entries_def index_examples)
  have sa: "sort_cmp (\<lambda>a b. nanToZero (subtractCounts (snd b) (snd a)))
              [(''A'', Number 1), (''B'', Number 1)]
              = [(''A'', Number 1), (''B'', Number 1)]"
    by (simp add: sort_cmp_def)
  have sb: "sort_cmp (\<lambda>a b. nanToZero (subtractCounts (snd b) (snd a)))
              [(''311'', Number 1), (''B'', Number 1)]
              = [(''311'', Number 1), (''B'', Number 1)]"
    by (simp add: sort_cmp_def)
  have l: "leastMentionedBand (stats [mkEpisode ''1'' ''A'', mkEpisode ''2'' ''B''])
             = Some (''B'', Number 1)"
    unfolding stats_def Let_def a ea sa by (simp add: at_index_def)
  have m: "mostMentionedBand (stats [mkEpisode ''1'' ''B'', mkEpisode ''2'' ''311''])
             = Some (''311'', Number 1)"
    unfolding stats_def Let_def b eb sb by (simp add: at_index_def)
  have k: "knownBand (mkEpisode ''1'' ''__proto__'')"
    by (simp add: knownBand_def mkEpisode_def)
  have bp: "bandCounts [mkEpisode ''1'' ''__proto__''] = []"
    by (simp add: bandCounts_def mkEpisode_def unknownBand_def setProp_def)
  have p: "mostMentionedBand (stats [mkEpisode ''1'' ''__proto__'']) = None"
    using superlatives_none [OF bp] by simp
  have c: "bandMentions [mkEpisode ''1'' ''A'', mkEpisode ''2'' ''constructor'',
                         mkEpisode ''3'' ''constructor'']
             = [(''A'', Number 1), (''constructor'', Str ''function Object() { [native code] }11'')]"
    by (simp add: bandMentions_def knownBand_def mkEpisode_def setProp_def
          getProp_def inherited_def objectPrototypeNames_def)
  have ec: "Object_entries
              [(''A'', Number 1), (''constructor'', Str ''function Object() { [native code] }11'')]
            = [(''A'', Number 1), (''constructor'', Str ''function Object() { [native code] }11'')]"
    by (simp add: Object_entries_def index_examples notIndex_examples)
  have sc: "sort_cmp (\<lambda>a b. nanToZero (subtractCounts (snd b) (snd a)))
              [(''A'', Number 1), (''constructor'', Str ''function Object() { [native code] }11'')]
            = [(''A'', Number 1), (''constructor'', Str ''function Object() { [native code] }11'')]"
    by (simp add: sort_cmp_def)
  have q: "mostMentionedBand (stats [mkEpisode ''1'' ''A'', mkEpisode ''2'' ''constructor'',
             mkEpisode ''3'' ''constructor'']) = Some (''A'', Number 1)"
    unfolding stats_def Let_def c ec sc by (simp add: at_index_def)
  have mc: "mentions [mkEpisode ''1'' ''A'', mkEpisode ''2'' ''constructor'',
              mkEpisode ''3'' ''constructor''] ''constructor'' = 2"
    by (simp add: mentions_def mkEpisode_def knownBand_def)
  from a l b m k p q mc show ?thesis by (intro conjI)
qed

subsection \<open>The list of bands\<close>

text \<open>In every mode the sorted list holds the entries of the band counts of all episodes.\<close>

lemma sortedBands_reorders:
  "mset (sortedBands localeCompare sortBy eps) = mset (bandCounts eps)"
  by (simp add: sortedBands_def mset_sort_cmp mset_Object_entries)

subsection \<open>C4: the list of bands and the search term\<close>

text \<open>
  Claim C4 says that the bands listed in the modes \<^verbatim>\<open>band\<close> and \<^verbatim>\<open>count\<close> are the bands of
  the filtered episodes. The source builds \<^verbatim>\<open>sortedBands\<close> from all episodes. For the one
  episode of the band Wilco and the search term \<^verbatim>\<open>zzz\<close> no episode passes the filter, the
  list of bands still holds Wilco, and the page of the second listing, which looks the
  band up in the groups of the filtered episodes, throws a TypeError.
\<close>

theorem bandList_ignores_search:
  "filteredEpisodes1 [mkEpisode ''1'' ''Wilco''] ''zzz'' = []
   \<and> filteredEpisodes [mkEpisode ''1'' ''Wilco''] ''zzz'' = []
   \<and> sortedBands localeCompare Band [mkEpisode ''1'' ''Wilco''] = [(''Wilco'', Number 1)]
   \<and> sortedBands localeCompare Count [mkEpisode ''1'' ''Wilco''] = [(''Wilco'', Number 1)]
   \<and> bandList localeCompare Band [mkEpisode ''1'' ''Wilco''] ''zzz'' = Inl TypeError
   \<and> bandList localeCompare Count [mkEpisode ''1'' ''Wilco''] ''zzz'' = Inl TypeError"
proof -
  have f1: "filteredEpisodes1 [mkEpisode ''1'' ''Wilco''] ''zzz'' = []"
    by code_simp
  have f2: "filteredEpisodes [mkEpisode ''1'' ''Wilco''] ''zzz'' = []"
    by code_simp
  have c: "bandCounts [mkEpisode ''1'' ''Wilco''] = [(''Wilco'', Number 1)]"
    by (simp add: bandCounts_def unknownBand_def mkEpisode_def setProp_def
          getProp_plain [OF wilco_plain])
  have e: "Object_entries [(''Wilco'', Number 1)] = [(''Wilco'', Number 1)]"
    by (simp add: Object_entries_def isArrayIndex_def isDigit_def)
  have s: "sortedBands localeCompare m [mkEpisode ''1'' ''Wilco''] = [(''Wilco'', Number 1)]" for m
    unfolding sortedBands_def c e by (simp add: sort_cmp_def)
  have g: "bandGroups [] = Inr []" by (simp add: bandGroups_def)
  have r: "bandList localeCompare m [mkEpisode ''1'' ''Wilco''] ''zzz'' = Inl TypeError" for m
    unfolding bandList_def f2 g s by (simp add: getProp_plain [OF wilco_plain])
  from f1 f2 s [of Band] s [of Count] r [of Band] r [of Count]
  show ?thesis by (intro conjI)
qed

theorem bandList_ignores_search_witness:
  "filteredEpisodes [mkEpisode ''1'' ''Wilco''] ''zzz'' = []
   \<and> sortedBands lexCompare Band [mkEpisode ''1'' ''Wilco''] = [(''Wilco'', Number 1)]
   \<and> bandList lexCompare Band [mkEpisode ''1'' ''Wilco''] ''zzz'' = Inl TypeError"
  using bandList_ignores_search [of lexCompare] by (intro conjI) (elim conjE, assumption)+

end
